theory Spec2Isabelle
  imports Main "HOL-Library.AList"
begin

section \<open>Python strings\<close>

text \<open>
  Strings are ASCII: \<open>string\<close> is a list of bytes, and the configuration keys, section
  names and keywords of \<open>config.py\<close> are ASCII. The string methods the module calls are
  written out here: \<open>str.lower\<close>, \<open>str.capitalize\<close>, \<open>str.startswith\<close>,
  \<open>str.split(sep)\<close>, \<open>str.split(sep, 1)\<close> and \<open>str.count\<close>.
\<close>

definition to_lower :: "char \<Rightarrow> char" where
  "to_lower c =
     (case map_of (zip ''ABCDEFGHIJKLMNOPQRSTUVWXYZ'' ''abcdefghijklmnopqrstuvwxyz'') c of
        Some d \<Rightarrow> d | None \<Rightarrow> c)"

definition to_upper :: "char \<Rightarrow> char" where
  "to_upper c =
     (case map_of (zip ''abcdefghijklmnopqrstuvwxyz'' ''ABCDEFGHIJKLMNOPQRSTUVWXYZ'') c of
        Some d \<Rightarrow> d | None \<Rightarrow> c)"

definition lower :: "string \<Rightarrow> string" where
  "lower s = map to_lower s"

text \<open>\<open>s.capitalize()\<close>: the first character upper-cased, every other one lower-cased.\<close>

fun capitalize :: "string \<Rightarrow> string" where
  "capitalize [] = []"
| "capitalize (c # cs) = to_upper c # map to_lower cs"

definition startswith :: "string \<Rightarrow> string \<Rightarrow> bool" where
  "startswith s p = (take (length p) s = p)"

text \<open>\<open>s.startswith((p1, p2, ...))\<close> with a tuple of prefixes.\<close>

definition startswith_any :: "string \<Rightarrow> string list \<Rightarrow> bool" where
  "startswith_any s ps = list_ex (startswith s) ps"

text \<open>\<open>s.split(c)\<close>: every occurrence of the separator splits; the result is never empty.\<close>

fun split_on :: "char \<Rightarrow> string \<Rightarrow> string list" where
  "split_on c [] = [[]]"
| "split_on c (x # xs) =
     (if x = c then [] # split_on c xs
      else (case split_on c xs of w # ws \<Rightarrow> (x # w) # ws | [] \<Rightarrow> [[x]]))"

text \<open>\<open>s.split(c, 1)\<close>: at most one split, at the first occurrence of the separator.\<close>

definition split_first :: "char \<Rightarrow> string \<Rightarrow> string list" where
  "split_first c s =
     (if c \<in> set s
      then [takeWhile (\<lambda>x. x \<noteq> c) s, tl (dropWhile (\<lambda>x. x \<noteq> c) s)]
      else [s])"

definition is_blank :: "char \<Rightarrow> bool" where
  "is_blank c = (c = CHR '' '' \<or> c = CHR 0x09)"

definition strip_blanks :: "string \<Rightarrow> string" where
  "strip_blanks s = rev (dropWhile is_blank (rev (dropWhile is_blank s)))"

definition is_digit :: "char \<Rightarrow> bool" where
  "is_digit c = (c \<in> set ''0123456789'')"

definition is_letter :: "char \<Rightarrow> bool" where
  "is_letter c =
     (c \<in> set ''abcdefghijklmnopqrstuvwxyzABCDEFGHIJKLMNOPQRSTUVWXYZ'')"

text \<open>An ASCII Python identifier: letters, digits and underscores, not starting with a digit.\<close>

definition is_ident :: "string \<Rightarrow> bool" where
  "is_ident s =
     (case s of [] \<Rightarrow> False
      | c # cs \<Rightarrow> (is_letter c \<or> c = CHR ''_'') \<and>
          list_all (\<lambda>x. is_letter x \<or> is_digit x \<or> x = CHR ''_'') cs)"

definition py_keywords :: "string list" where
  "py_keywords =
     [''False'', ''None'', ''True'', ''and'', ''as'', ''assert'', ''async'', ''await'',
      ''break'', ''class'', ''continue'', ''def'', ''del'', ''elif'', ''else'', ''except'',
      ''finally'', ''for'', ''from'', ''global'', ''if'', ''import'', ''in'', ''is'',
      ''lambda'', ''nonlocal'', ''not'', ''or'', ''pass'', ''raise'', ''return'', ''try'',
      ''while'', ''with'', ''yield'']"

section \<open>Values and errors\<close>

text \<open>
  The values a configuration holds. A float is named by its \<open>repr\<close>, the shortest decimal
  text that reads back as the same double (\<open>5.\<close> is \<open>PFloat ''5.0''\<close>, \<open>0.000001\<close> is
  \<open>PFloat ''1e-06''\<close>); a \<open>pathlib.Path\<close> by its text; \<open>PObj\<close> is any other Python
  object, named by its \<open>repr\<close>.
\<close>

datatype pyval =
    PBool bool
  | PNone
  | PInt int
  | PFloat string
  | PStr string
  | PList "pyval list"
  | PTuple "pyval list"
  | PDict "(pyval \<times> pyval) list"
  | PPath string
  | PObj string

datatype pyerror =
    NameError
  | SyntaxError
  | ValueError
  | TypeError
  | KeyError string
  | AssertionError string
  | SystemExit int
  | DuplicateSectionError string
  | DuplicateOptionError string string
  | NoSectionError string
  | InterpolationError
  | RuntimeError string
  | OtherError string

text \<open>A configuration section: an insertion-ordered dict from key to value.\<close>

type_synonym opts = "(string \<times> pyval) list"

text \<open>The backing store of \<open>ConfigParser\<close>: the \<open>DEFAULT\<close> section and the named
  sections in the order they were added, each an ordered dict from option name to text.\<close>

record parser =
  pdefaults :: "(string \<times> string) list"
  psects :: "(string \<times> (string \<times> string) list) list"

text \<open>
  What the module takes from outside its own code. \<open>resolve\<close> is
  \<open>pathlib.Path(s).expanduser().resolve()\<close>, which depends on the file system and
  raises for some texts (\<open>RuntimeError\<close> when the home directory of \<open>~user\<close> cannot be
  determined, \<open>ValueError\<close> for an embedded null character);
  \<open>close_matches word keys\<close> is \<open>difflib.get_close_matches(word, keys, n=1)\<close>.
  \<open>eval\<close>, \<open>ast.literal_eval\<close> and the \<open>ExtendedInterpolation\<close> of \<open>ConfigParser\<close> are
  written out below on the inputs where what they do is plain; \<open>eval_ext\<close>,
  \<open>literal_ext\<close> and \<open>interp_ext\<close> stand for them on every other input.
\<close>

record env =
  resolve :: "string \<Rightarrow> pyerror + string"
  eval_ext :: "string \<Rightarrow> pyerror + pyval"
  literal_ext :: "string \<Rightarrow> pyerror + pyval"
  interp_ext :: "parser \<Rightarrow> string \<Rightarrow> string \<Rightarrow> string \<Rightarrow> pyerror + string"
  close_matches :: "string \<Rightarrow> string list \<Rightarrow> string list"

section \<open>Decimal numerals\<close>

definition digit_val :: "char \<Rightarrow> nat" where
  "digit_val c =
     (case map_of (zip ''0123456789'' [0, 1, 2, 3, 4, 5, 6, 7, 8, 9]) c of
        Some d \<Rightarrow> d | None \<Rightarrow> 0)"

text \<open>The value of a digit string, most significant digit first.\<close>

definition digits_val :: "string \<Rightarrow> nat" where
  "digits_val s = foldl (\<lambda>acc c. 10 * acc + digit_val c) 0 s"

definition digit_char :: "nat \<Rightarrow> char" where
  "digit_char d = ''0123456789'' ! (d mod 10)"

text \<open>\<open>str(n)\<close> for a natural number.\<close>

function nat_str :: "nat \<Rightarrow> string" where
  "nat_str n = (if n < 10 then [digit_char n] else nat_str (n div 10) @ [digit_char n])"
  by pat_completeness auto
termination
  by (relation "measure id") auto

definition int_str :: "int \<Rightarrow> string" where
  "int_str i = (if i < 0 then CHR ''-'' # nat_str (nat (- i)) else nat_str (nat i))"

text \<open>
  A decimal integer literal of Python 3: digits only, with no leading zero unless every
  digit is zero. Longer than 4300 digits, Python refuses the conversion.
\<close>

definition is_int_literal :: "string \<Rightarrow> bool" where
  "is_int_literal s =
     (s \<noteq> [] \<and> list_all is_digit s \<and> (hd s \<noteq> CHR ''0'' \<or> list_all (\<lambda>c. c = CHR ''0'') s))"

text \<open>
  The texts that are the \<open>repr\<close> of a float with at most 15 significant digits, for which
  reading the text and printing the float give the text back.
  Fixed notation: \<open>I.F\<close>, \<open>I\<close> without a leading zero (or \<open>0\<close> alone), \<open>F\<close> without a
  trailing zero (or \<open>0\<close> alone), at most three zeros after the point when \<open>I\<close> is \<open>0\<close>.
  Scientific notation: \<open>D[.F]e-XX\<close> with \<open>XX\<close> from \<open>05\<close> to \<open>99\<close>, or \<open>D[.F]e+XX\<close> with
  \<open>XX\<close> from \<open>16\<close> to \<open>99\<close>.
\<close>

definition is_int_part :: "string \<Rightarrow> bool" where
  "is_int_part s = (s = ''0'' \<or> (s \<noteq> [] \<and> list_all is_digit s \<and> hd s \<noteq> CHR ''0''))"

definition is_frac_part :: "string \<Rightarrow> bool" where
  "is_frac_part s = (s = ''0'' \<or> (s \<noteq> [] \<and> list_all is_digit s \<and> last s \<noteq> CHR ''0''))"

definition is_fixed_repr :: "string \<Rightarrow> bool" where
  "is_fixed_repr s =
     (case split_on CHR ''.'' s of
        [i, f] \<Rightarrow>
          is_int_part i \<and> is_frac_part f \<and> length i + length f \<le> 15 \<and>
          (if i = ''0'' then f = ''0'' \<or> length (takeWhile (\<lambda>c. c = CHR ''0'') f) \<le> 3
           else True)
      | _ \<Rightarrow> False)"

definition is_mantissa :: "string \<Rightarrow> bool" where
  "is_mantissa s =
     (case split_on CHR ''.'' s of
        [d] \<Rightarrow> length d = 1 \<and> is_digit (hd d) \<and> d \<noteq> ''0''
      | [d, f] \<Rightarrow>
          length d = 1 \<and> is_digit (hd d) \<and> d \<noteq> ''0'' \<and>
          f \<noteq> [] \<and> list_all is_digit f \<and> last f \<noteq> CHR ''0'' \<and> length f \<le> 14
      | _ \<Rightarrow> False)"

definition is_sci_repr :: "string \<Rightarrow> bool" where
  "is_sci_repr s =
     (case split_on CHR ''e'' s of
        [m, x] \<Rightarrow>
          is_mantissa m \<and> length x = 3 \<and> list_all is_digit (tl x) \<and>
          ((hd x = CHR ''-'' \<and> 5 \<le> digits_val (tl x)) \<or>
           (hd x = CHR ''+'' \<and> 16 \<le> digits_val (tl x)))
      | _ \<Rightarrow> False)"

definition is_float_repr :: "string \<Rightarrow> bool" where
  "is_float_repr s = (is_fixed_repr s \<or> is_sci_repr s)"

declare nat_str.simps [simp del]

section \<open>Value coercion\<close>

text \<open>
  \<open>_parse_value\<close> receives a \<open>str\<close> (a value read by the parser) or, from
  \<open>parse_overrides\<close>, what \<open>resolve_path\<close> made of a \<open>str\<close>: the same \<open>str\<close> or a
  \<open>pathlib.Path\<close>.
\<close>

datatype raw = Text string | PathObj string

fun raw_str :: "raw \<Rightarrow> string" where
  "raw_str (Text s) = s"
| "raw_str (PathObj p) = p"

fun raw_val :: "raw \<Rightarrow> pyval" where
  "raw_val (Text s) = PStr s"
| "raw_val (PathObj p) = PPath p"

text \<open>
  \<open>eval(s, {}, {})\<close>. Surrounding blanks are ignored. The three keywords are their values.
  Any other identifier is a name looked up in the empty locals, the empty globals and the
  builtins; \<open>py_eval\<close> is only called on capitalised text that starts with one of the
  keywords, no builtin has such a name, so the lookup raises \<open>NameError\<close>. Every other
  expression is left to \<open>eval_ext\<close>.
\<close>

definition py_eval :: "env \<Rightarrow> string \<Rightarrow> pyerror + pyval" where
  "py_eval E s =
     (let t = strip_blanks s in
      if t = ''False'' then Inr (PBool False)
      else if t = ''True'' then Inr (PBool True)
      else if t = ''None'' then Inr PNone
      else if is_ident t \<and> startswith_any t [''False'', ''True'', ''None''] then Inl NameError
      else eval_ext E s)"

text \<open>
  \<open>ast.literal_eval\<close>. A \<open>Path\<close> is neither text nor a syntax tree: \<open>ValueError\<close>.
  For text, surrounding blanks are ignored; empty text is a \<open>SyntaxError\<close>; the three
  keywords are constants; any other identifier is a keyword (\<open>SyntaxError\<close>) or a name
  (\<open>ValueError\<close>, a name is no literal); digits are an integer, or a \<open>SyntaxError\<close> when a
  leading zero precedes a non-zero digit; the \<open>repr\<close> of a float is that float. Every other
  text (quoted strings, brackets, signs, other number formats) is left to \<open>literal_ext\<close>.
\<close>

fun literal_eval :: "env \<Rightarrow> raw \<Rightarrow> pyerror + pyval" where
  "literal_eval E (PathObj p) = Inl ValueError"
| "literal_eval E (Text s) =
     (let t = strip_blanks s in
      if t = [] then Inl SyntaxError
      else if t = ''False'' then Inr (PBool False)
      else if t = ''True'' then Inr (PBool True)
      else if t = ''None'' then Inr PNone
      else if is_ident t then (if t \<in> set py_keywords then Inl SyntaxError else Inl ValueError)
      else if list_all is_digit t \<and> length t \<le> 4300 then
        (if is_int_literal t then Inr (PInt (int (digits_val t))) else Inl SyntaxError)
      else if is_float_repr t then Inr (PFloat t)
      else literal_ext E s)"

text \<open>
  \<open>_parse_value\<close> (config.py, lines 75-93). The \<open>eval\<close> of line 84 stands outside the
  \<open>try\<close>, so what it raises leaves the function; what \<open>literal_eval\<close> raises is caught and
  the value is returned as it came.
\<close>

definition parse_value :: "env \<Rightarrow> raw \<Rightarrow> pyerror + pyval" where
  "parse_value E v =
     (if startswith_any (capitalize (raw_str v)) [''False'', ''True'', ''None'']
      then py_eval E (capitalize (raw_str v))
      else (case literal_eval E v of
              Inr r \<Rightarrow> Inr r
            | Inl e \<Rightarrow> Inr (raw_val v)))"

section \<open>Errors in sequence\<close>

text \<open>A comprehension or loop whose body may raise: the first error ends it.\<close>

fun traverse :: "('a \<Rightarrow> 'e + 'b) \<Rightarrow> 'a list \<Rightarrow> 'e + 'b list" where
  "traverse f [] = Inr []"
| "traverse f (x # xs) =
     (case f x of
        Inl e \<Rightarrow> Inl e
      | Inr y \<Rightarrow> (case traverse f xs of Inl e \<Rightarrow> Inl e | Inr ys \<Rightarrow> Inr (y # ys)))"

text \<open>The same for outcomes already computed, in their order.\<close>

definition first_error :: "('e + 'b) list \<Rightarrow> 'e + 'b list" where
  "first_error rs = traverse (\<lambda>r. r) rs"

text \<open>\<open>d.update(other)\<close> on insertion-ordered dicts: a key already present keeps its
  place and takes the new value, a new key is appended.\<close>

definition dict_update :: "('k \<times> 'v) list \<Rightarrow> ('k \<times> 'v) list \<Rightarrow> ('k \<times> 'v) list" where
  "dict_update d other = fold (\<lambda>kv acc. AList.update (fst kv) (snd kv) acc) other d"

section \<open>Path resolution\<close>

definition is_pathlike :: "string \<Rightarrow> bool" where
  "is_pathlike s = startswith_any s [''~'', ''/'', ''../'', ''./'']"

text \<open>\<open>resolve_path\<close> (lines 65-72) on a \<open>str\<close>, as \<open>parse_overrides\<close> calls it.\<close>

definition resolve_path_str :: "env \<Rightarrow> string \<Rightarrow> pyerror + raw" where
  "resolve_path_str E s =
     (if is_pathlike s
      then (case resolve E s of Inl e \<Rightarrow> Inl e | Inr p \<Rightarrow> Inr (PathObj p))
      else Inr (Text s))"

text \<open>\<open>resolve_path\<close> on a coerced value: the elements of a list and the values of a dict
  are resolved recursively and in order, a path-like \<open>str\<close> becomes a \<open>Path\<close> or raises
  what \<open>pathlib\<close> raises, anything else (a tuple too) is returned unchanged.\<close>

fun resolve_path :: "env \<Rightarrow> pyval \<Rightarrow> pyerror + pyval" where
  "resolve_path E (PList xs) =
     (case first_error (map (resolve_path E) xs) of
        Inl e \<Rightarrow> Inl e
      | Inr ys \<Rightarrow> Inr (PList ys))"
| "resolve_path E (PDict kvs) =
     (case first_error
             (map (\<lambda>kv. case resolve_path E (snd kv) of
                          Inl e \<Rightarrow> Inl e
                        | Inr v \<Rightarrow> Inr (fst kv, v)) kvs) of
        Inl e \<Rightarrow> Inl e
      | Inr r \<Rightarrow> Inr (PDict r))"
| "resolve_path E (PStr s) =
     (if is_pathlike s
      then (case resolve E s of Inl e \<Rightarrow> Inl e | Inr p \<Rightarrow> Inr (PPath p))
      else Inr (PStr s))"
| "resolve_path E v = Inr v"

section \<open>Override parser\<close>

type_synonym overrides = "(string \<times> opts) list"

text \<open>
  One pass of the loop of \<open>parse_overrides\<close> (lines 100-104). Unpacking into two names
  raises \<open>ValueError\<close> unless the split has exactly two parts. \<open>overrides\<close> is a
  \<open>defaultdict(dict)\<close>: a missing section reads as the empty dict.
\<close>

definition override_entry :: "env \<Rightarrow> overrides \<Rightarrow> string \<Rightarrow> pyerror + overrides" where
  "override_entry E ov opt =
     (case split_first CHR ''.'' opt of
        [section, keyvalue] \<Rightarrow>
          (case split_on CHR '':'' keyvalue of
             [key, val] \<Rightarrow>
               (case resolve_path_str E val of
                  Inl e \<Rightarrow> Inl e
                | Inr r \<Rightarrow>
                    (case parse_value E r of
                       Inl e \<Rightarrow> Inl e
                     | Inr v \<Rightarrow>
                         Inr (AList.update section
                               (AList.update key v
                                  (case map_of ov section of None \<Rightarrow> [] | Some d \<Rightarrow> d))
                               ov)))
           | _ \<Rightarrow> Inl ValueError)
      | _ \<Rightarrow> Inl ValueError)"

fun parse_overrides_from :: "env \<Rightarrow> overrides \<Rightarrow> string list \<Rightarrow> pyerror + overrides" where
  "parse_overrides_from E ov [] = Inr ov"
| "parse_overrides_from E ov (opt # rest) =
     (case override_entry E ov opt of
        Inl e \<Rightarrow> Inl e
      | Inr ov' \<Rightarrow> parse_overrides_from E ov' rest)"

definition parse_overrides :: "env \<Rightarrow> string list \<Rightarrow> pyerror + overrides" where
  "parse_overrides E override_list = parse_overrides_from E [] override_list"

section \<open>The defaults table\<close>

text \<open>\<open>TRAIN_DEFAULTS\<close> (lines 14-53) holds bools, ints, floats and strs only.\<close>

datatype scalar = SBool bool | SInt int | SFloat string | SStr string

fun scalar_str :: "scalar \<Rightarrow> string" where
  "scalar_str (SBool b) = (if b then ''True'' else ''False'')"
| "scalar_str (SInt i) = int_str i"
| "scalar_str (SFloat r) = r"
| "scalar_str (SStr s) = s"

fun scalar_val :: "scalar \<Rightarrow> pyval" where
  "scalar_val (SBool b) = PBool b"
| "scalar_val (SInt i) = PInt i"
| "scalar_val (SFloat r) = PFloat r"
| "scalar_val (SStr s) = PStr s"

definition TRAIN_DEFAULTS :: "(string \<times> scalar) list" where
  "TRAIN_DEFAULTS =
     [(''num_workers'', SInt 0),
      (''pin_memory'', SBool False),
      (''seed'', SInt 0),
      (''gclip'', SFloat ''5.0''),
      (''l2_reg'', SFloat ''0.0''),
      (''patience'', SInt 20),
      (''optimizer'', SStr ''adam''),
      (''lr'', SFloat ''0.0004''),
      (''lr_decay'', SBool False),
      (''lr_decay_revert'', SBool False),
      (''lr_decay_factor'', SFloat ''0.1''),
      (''lr_decay_patience'', SInt 10),
      (''lr_decay_min'', SFloat ''1e-06''),
      (''model_type'', SStr []),
      (''momentum'', SFloat ''0.0''),
      (''nesterov'', SBool False),
      (''disp_freq'', SInt 30),
      (''batch_size'', SInt 32),
      (''max_epochs'', SInt 100),
      (''max_iterations'', SInt 1000000),
      (''eval_metrics'', SStr ''loss''),
      (''eval_filters'', SStr []),
      (''eval_beam'', SInt 6),
      (''eval_batch_size'', SInt 16),
      (''eval_freq'', SInt 3000),
      (''eval_max_len'', SInt 200),
      (''eval_start'', SInt 1),
      (''eval_zero'', SBool False),
      (''save_best_metrics'', SBool True),
      (''save_path'', SStr []),
      (''save_optim_state'', SBool False),
      (''checkpoint_freq'', SInt 5000),
      (''n_checkpoints'', SInt 5),
      (''tensorboard_dir'', SStr []),
      (''pretrained_file'', SStr []),
      (''freeze_layers'', SStr []),
      (''handle_oom'', SBool False)]"

section \<open>The section store: \<open>ConfigParser\<close>\<close>

text \<open>
  A configuration file as the line grammar of \<open>ConfigParser\<close> reads it, after
  \<open>expand_env_vars\<close>: the section headers in file order, each with its option lines
  (name and stripped value text).
\<close>

type_synonym ini = "(string \<times> (string \<times> string) list) list"

text \<open>
  \<open>self._parser.read_dict({'train': TRAIN_DEFAULTS})\<close> on the new parser (line 145): the
  section \<open>train\<close> is added and every default is stored as \<open>str(value)\<close> under its
  lower-cased key (\<open>optionxform\<close>). No key of the table repeats and no value holds a
  \<open>$\<close>, so the duplicate check and the check of the interpolation syntax pass.
\<close>

definition read_defaults :: parser where
  "read_defaults =
     \<lparr>pdefaults = [],
      psects = [(''train'',
        fold (\<lambda>kd acc. AList.update (lower (fst kd)) (scalar_str (snd kd)) acc)
          TRAIN_DEFAULTS [])]\<rparr>"

text \<open>
  The option lines of one section (\<open>ConfigParser._read\<close>, strict): the name is
  lower-cased; a name seen before in the same section of the same source is a
  \<open>DuplicateOptionError\<close>; otherwise the value is stored. \<open>added\<close> is the
  \<open>elements_added\<close> set of the call.
\<close>

fun read_options ::
  "string \<Rightarrow> (string \<times> string) list \<Rightarrow> (string \<times> string) list \<Rightarrow> (string \<times> string) list
     \<Rightarrow> pyerror + ((string \<times> string) list \<times> (string \<times> string) list)" where
  "read_options sect added cur [] = Inr (cur, added)"
| "read_options sect added cur ((k, v) # rest) =
     (if (sect, lower k) \<in> set added then Inl (DuplicateOptionError sect (lower k))
      else read_options sect ((sect, lower k) # added) (AList.update (lower k) v cur) rest)"

text \<open>
  The section headers of \<open>read_string\<close> (line 148): a section the parser already holds
  is continued, unless this source has named it before (\<open>DuplicateSectionError\<close>);
  \<open>DEFAULT\<close> names the defaults of every section; any other name is a new section.
\<close>

fun read_ini ::
  "parser \<Rightarrow> string list \<Rightarrow> (string \<times> string) list \<Rightarrow> ini \<Rightarrow> pyerror + parser" where
  "read_ini p secs added [] = Inr p"
| "read_ini p secs added ((name, lines) # rest) =
     (if name \<in> set (map fst (psects p)) then
        (if name \<in> set secs then Inl (DuplicateSectionError name)
         else (case read_options name added
                      (case map_of (psects p) name of None \<Rightarrow> [] | Some c \<Rightarrow> c) lines of
                 Inl e \<Rightarrow> Inl e
               | Inr (cur, added') \<Rightarrow>
                   read_ini (p\<lparr>psects := AList.update name cur (psects p)\<rparr>)
                     (name # secs) added' rest))
      else if name = ''DEFAULT'' then
        (case read_options name added (pdefaults p) lines of
           Inl e \<Rightarrow> Inl e
         | Inr (cur, added') \<Rightarrow> read_ini (p\<lparr>pdefaults := cur\<rparr>) secs added' rest)
      else
        (case read_options name added [] lines of
           Inl e \<Rightarrow> Inl e
         | Inr (cur, added') \<Rightarrow>
             read_ini (p\<lparr>psects := psects p @ [(name, cur)]\<rparr>) (name # secs) added' rest))"

definition read_string :: "parser \<Rightarrow> ini \<Rightarrow> pyerror + parser" where
  "read_string p data = read_ini p [] [] data"

text \<open>\<open>parser.sections()\<close>: the section names in the order added, without \<open>DEFAULT\<close>.\<close>

definition parser_sections :: "parser \<Rightarrow> string list" where
  "parser_sections p = map fst (psects p)"

text \<open>\<open>ExtendedInterpolation.before_get\<close>: text without a \<open>$\<close> is returned as it is.\<close>

definition interpolate :: "env \<Rightarrow> parser \<Rightarrow> string \<Rightarrow> string \<Rightarrow> string \<Rightarrow> pyerror + string" where
  "interpolate E p section option v =
     (if CHR ''$'' \<in> set v then interp_ext E p section option v else Inr v)"

text \<open>
  \<open>parser.items(section)\<close>: the defaults updated with the section's own options, every
  value interpolated (\<open>interp_item\<close> is the interpolation of one item).
\<close>

definition interp_item :: "env \<Rightarrow> parser \<Rightarrow> string \<Rightarrow> string \<times> string \<Rightarrow> pyerror + (string \<times> string)" where
  "interp_item E p s kv =
     (case interpolate E p s (fst kv) (snd kv) of Inl e \<Rightarrow> Inl e | Inr t \<Rightarrow> Inr (fst kv, t))"

definition items :: "env \<Rightarrow> parser \<Rightarrow> string \<Rightarrow> pyerror + (string \<times> string) list" where
  "items E p section =
     (case map_of (psects p) section of
        None \<Rightarrow>
          (if section = ''DEFAULT''
           then traverse (interp_item E p section) (pdefaults p)
           else Inl (NoSectionError section))
      | Some sec \<Rightarrow> traverse (interp_item E p section) (dict_update (pdefaults p) sec))"

section \<open>The configuration object\<close>

record options =
  filename :: string
  oparser :: parser
  ooverrides :: overrides
  psections :: "(string \<times> opts) list"

text \<open>
  \<open>__getitem__\<close> (lines 206-214): the section stored under the key, or, when there is
  none, a new dict from the last dot-separated part of every section name that starts
  with the key and a dot to that section. \<open>__getattr__\<close> is the same lookup.
\<close>

datatype 'a lookup = Section 'a | Children "(string \<times> 'a) list"

definition getitem :: "(string \<times> 'a) list \<Rightarrow> string \<Rightarrow> 'a lookup" where
  "getitem ps key =
     (case map_of ps key of
        Some sec \<Rightarrow> Section sec
      | None \<Rightarrow>
          Children
            (fold (\<lambda>kv acc. AList.update (last (split_on CHR ''.'' (fst kv))) (snd kv) acc)
               (filter (\<lambda>kv. startswith (fst kv) (key @ ''.'')) ps) []))"

text \<open>The keys of what a lookup returns.\<close>

fun lookup_keys :: "opts lookup \<Rightarrow> string list" where
  "lookup_keys (Section sec) = map fst sec"
| "lookup_keys (Children cs) = map fst cs"

text \<open>Lines 156-169: the section names.\<close>

definition check_sections :: "string list \<Rightarrow> pyerror + unit" where
  "check_sections secs =
     (if ''train'' \<notin> set secs
      then Inl (AssertionError ''[train] section missing in configuration file.'')
      else if ''model'' \<notin> set (remove1 ''train'' secs)
      then Inl (AssertionError ''[model] section missing in configuration file.'')
      else if \<not> list_all (\<lambda>s. startswith s ''tasks.'') (remove1 ''model'' (remove1 ''train'' secs))
      then Inl (AssertionError
             ''Configuration file should include train, model and tasks.* sections.'')
      else (case map (\<lambda>s. count_list s CHR ''.'') secs of
              [] \<Rightarrow> Inl ValueError
            | n # ns \<Rightarrow>
                if fold max ns n < 2 then Inr ()
                else Inl (AssertionError ''Maximum level of section name grouping exceeded'')))"

text \<open>
  Lines 174-185, one section: every item is coerced and path-resolved into a new dict
  (\<open>coerce_item\<close> is line 178), then the overrides of this section are written over it.
\<close>

definition coerce_item :: "env \<Rightarrow> string \<times> string \<Rightarrow> pyerror + (string \<times> pyval)" where
  "coerce_item E kv =
     (case parse_value E (Text (snd kv)) of
        Inl e \<Rightarrow> Inl e
      | Inr r \<Rightarrow>
          (case resolve_path E r of
             Inl e \<Rightarrow> Inl e
           | Inr v \<Rightarrow> Inr (fst kv, v)))"

definition section_opts :: "env \<Rightarrow> parser \<Rightarrow> overrides \<Rightarrow> string \<Rightarrow> pyerror + (string \<times> opts)" where
  "section_opts E p ov section =
     (case items E p section of
        Inl e \<Rightarrow> Inl e
      | Inr kvs \<Rightarrow>
          (case traverse (coerce_item E) kvs of
             Inl e \<Rightarrow> Inl e
           | Inr parsed \<Rightarrow>
               Inr (section,
                 (case map_of ov section of
                    None \<Rightarrow> dict_update [] parsed
                  | Some d \<Rightarrow> dict_update (dict_update [] parsed) d))))"

text \<open>
  \<open>Options.__init__\<close> up to line 185. Without overrides \<open>self.overrides\<close> is the empty
  list, in which no section is found.
\<close>

definition init_sections :: "env \<Rightarrow> string \<Rightarrow> ini \<Rightarrow> string list option \<Rightarrow> pyerror + options" where
  "init_sections E fname data override_list =
     (case read_string read_defaults data of
        Inl e \<Rightarrow> Inl e
      | Inr p \<Rightarrow>
          (case (case override_list of None \<Rightarrow> Inr [] | Some l \<Rightarrow> parse_overrides E l) of
             Inl e \<Rightarrow> Inl e
           | Inr ov \<Rightarrow>
               (case check_sections (parser_sections p) of
                  Inl e \<Rightarrow> Inl e
                | Inr u \<Rightarrow>
                    (case traverse (section_opts E p ov) (parser_sections p) of
                       Inl e \<Rightarrow> Inl e
                     | Inr ps \<Rightarrow>
                         Inr \<lparr>filename = fname, oparser = p, ooverrides = ov,
                              psections = dict_update [] ps\<rparr>))))"

text \<open>
  Lines 187-201: the sanity check of \<open>[train]\<close>. The result is what was printed and
  whether the process goes on. \<open>invalid_keys\<close> is a Python set, whose iteration order is
  not fixed; the model visits the unknown keys in the order of the section.
\<close>

definition unknown_msg :: "env \<Rightarrow> string \<Rightarrow> string \<Rightarrow> string" where
  "unknown_msg E fname key =
     fname @ '':train: Unknown option '' @ [CHR 0x27] @ key @ [CHR 0x27] @ ''.'' @
     (case close_matches E key (map fst TRAIN_DEFAULTS) of
        [] \<Rightarrow> []
      | m # ms \<Rightarrow> ''  Did you mean '' @ [CHR 0x27] @ m @ [CHR 0x27] @ '' ?'')"

definition invalid_keys :: "string list \<Rightarrow> string list" where
  "invalid_keys train_keys = filter (\<lambda>k. k \<notin> set (map fst TRAIN_DEFAULTS)) (remdups train_keys)"

definition sanity_check :: "env \<Rightarrow> options \<Rightarrow> string list \<times> (pyerror + unit)" where
  "sanity_check E cfg =
     (let train_keys = lookup_keys (getitem (psections cfg) ''train'') in
      if length train_keys \<noteq> length (remdups train_keys)
      then ([], Inl (AssertionError ''Duplicate arguments found in config's [train] section.''))
      else (map (unknown_msg E (filename cfg)) (invalid_keys train_keys),
            if invalid_keys train_keys \<noteq> [] then Inl (SystemExit 1) else Inr ()))"

text \<open>\<open>Options(filename, overrides)\<close>: what is printed, and the object or the error.\<close>

definition load :: "env \<Rightarrow> string \<Rightarrow> ini \<Rightarrow> string list option \<Rightarrow> string list \<times> (pyerror + options)" where
  "load E fname data override_list =
     (case init_sections E fname data override_list of
        Inl e \<Rightarrow> ([], Inl e)
      | Inr cfg \<Rightarrow>
          (case sanity_check E cfg of
             (out, Inl e) \<Rightarrow> (out, Inl e)
           | (out, Inr u) \<Rightarrow> (out, Inr cfg)))"

section \<open>Serialisation: \<open>to_dict\<close> and \<open>from_dict\<close>\<close>

text \<open>
  \<open>from_dict\<close> writes into dicts it shares with its argument, so the section dicts of a
  serialised configuration live in a store: an address is an index into the list of all
  dicts allocated so far. The values inside a section are never mutated and stay plain
  values.

  An entry of the serialised dict is a \<open>str\<close> (\<open>filename\<close>), a list of names
  (\<open>sections\<close>) or a reference to a section dict.
\<close>

type_synonym heap = "opts list"

datatype dentry = DStr string | DNames "string list" | DRef nat

type_synonym pydict = "(string \<times> dentry) list"

text \<open>\<open>copy.deepcopy(opts)\<close>: a new dict, equal to the old one, at a fresh address.\<close>

definition alloc :: "heap \<Rightarrow> opts \<Rightarrow> nat \<times> heap" where
  "alloc h d = (length h, h @ [d])"

text \<open>\<open>to_dict\<close> (lines 126-135).\<close>

definition to_dict :: "options \<Rightarrow> heap \<Rightarrow> pydict \<times> heap" where
  "to_dict cfg h =
     fold (\<lambda>so dh. case alloc (snd dh) (snd so) of
                      (a, h') \<Rightarrow> (AList.update (fst so) (DRef a) (fst dh), h'))
       (psections cfg)
       ([(''filename'', DStr (filename cfg)),
         (''sections'', DNames (parser_sections (oparser cfg)))], h)"

text \<open>
  The object \<open>from_dict\<close> builds: its \<open>__dict__\<close> as updated from the argument, and the
  \<open>_psections\<close> it sets last.
\<close>

record dictobj =
  odict :: pydict
  opsections :: "(string \<times> dentry) list"

text \<open>
  \<open>obj.__dict__[section][key] = value\<close> (line 118): a missing section is a
  \<open>KeyError\<close>, a \<open>str\<close> or a list takes no item under a \<open>str\<close> key (\<open>TypeError\<close>), a
  dict is updated in place.
\<close>

definition set_item :: "pydict \<Rightarrow> string \<Rightarrow> heap \<Rightarrow> string \<times> pyval \<Rightarrow> pyerror + heap" where
  "set_item d section h kv =
     (case map_of d section of
        None \<Rightarrow> Inl (KeyError section)
      | Some (DStr s) \<Rightarrow> Inl TypeError
      | Some (DNames ns) \<Rightarrow> Inl TypeError
      | Some (DRef a) \<Rightarrow>
          if a < length h then Inr (h[a := AList.update (fst kv) (snd kv) (h ! a)])
          else Inl (OtherError ''no object at this address''))"

fun set_items :: "pydict \<Rightarrow> string \<Rightarrow> heap \<Rightarrow> (string \<times> pyval) list \<Rightarrow> pyerror + heap" where
  "set_items d section h [] = Inr h"
| "set_items d section h (kv # rest) =
     (case set_item d section h kv of
        Inl e \<Rightarrow> Inl e
      | Inr h' \<Rightarrow> set_items d section h' rest)"

text \<open>Lines 116-118: the two loops over the parsed overrides.\<close>

fun apply_overrides :: "pydict \<Rightarrow> heap \<Rightarrow> overrides \<Rightarrow> pyerror + heap" where
  "apply_overrides d h [] = Inr h"
| "apply_overrides d h ((section, ov_dict) # rest) =
     (case set_items d section h ov_dict of
        Inl e \<Rightarrow> Inl e
      | Inr h' \<Rightarrow> apply_overrides d h' rest)"

text \<open>
  Iterating over \<open>dict_['sections']\<close> (line 121): the names of a list, the characters of
  a \<open>str\<close>, the keys of a dict.
\<close>

definition section_names :: "pydict \<Rightarrow> heap \<Rightarrow> pyerror + string list" where
  "section_names d h =
     (case map_of d ''sections'' of
        None \<Rightarrow> Inl (KeyError ''sections'')
      | Some (DNames ns) \<Rightarrow> Inr ns
      | Some (DStr s) \<Rightarrow> Inr (map (\<lambda>c. [c]) s)
      | Some (DRef a) \<Rightarrow>
          if a < length h then Inr (map fst (h ! a))
          else Inl (OtherError ''no object at this address''))"

text \<open>
  \<open>from_dict\<close> (lines 107-124). \<open>obj.__dict__.update(dict_)\<close> copies the entries of the
  argument, references as references: the section dicts are shared, not copied.
\<close>

definition from_dict :: "env \<Rightarrow> pydict \<Rightarrow> string list option \<Rightarrow> heap \<Rightarrow> pyerror + (dictobj \<times> heap)" where
  "from_dict E dict0 override_list h =
     (let d = dict_update [] dict0 in
      case (case override_list of
              None \<Rightarrow> Inr h
            | Some l \<Rightarrow>
                (case parse_overrides E l of
                   Inl e \<Rightarrow> Inl e
                 | Inr ov \<Rightarrow> apply_overrides d h ov)) of
        Inl e \<Rightarrow> Inl e
      | Inr h' \<Rightarrow>
          (case section_names d h' of
             Inl e \<Rightarrow> Inl e
           | Inr names \<Rightarrow>
               (case traverse (\<lambda>section. case map_of d section of
                                            None \<Rightarrow> Inl (KeyError section)
                                          | Some e \<Rightarrow> Inr (section, e)) names of
                  Inl e \<Rightarrow> Inl e
                | Inr ps \<Rightarrow> Inr (\<lparr>odict = d, opsections = dict_update [] ps\<rparr>, h'))))"

text \<open>What a reference holds in the store.\<close>

definition deref :: "heap \<Rightarrow> dentry \<Rightarrow> opts option" where
  "deref h e = (case e of DRef a \<Rightarrow> (if a < length h then Some (h ! a) else None) | _ \<Rightarrow> None)"

section \<open>An environment for the examples\<close>

text \<open>
  Paths resolve to themselves, no key is close enough to be suggested, and the inputs
  left to the three \<open>_ext\<close> functions raise. The examples below stay on inputs that the
  definitions above decide, and \<open>foo\<close> has no close match among the default keys.
\<close>

definition plain_env :: env where
  "plain_env =
     \<lparr>resolve = (\<lambda>s. Inr s),
      eval_ext = (\<lambda>s. Inl (OtherError s)),
      literal_ext = (\<lambda>s. Inl (OtherError s)),
      interp_ext = (\<lambda>p section option s. Inl InterpolationError),
      close_matches = (\<lambda>word keys. [])\<rparr>"

section \<open>The parts of an override entry\<close>

text \<open>
  What the two splits of \<open>parse_overrides\<close> cut an entry into: the section is the text
  before the first dot, the key the text between that dot and the next colon, the value
  text what follows that colon.
\<close>

definition override_section :: "string \<Rightarrow> string" where
  "override_section opt = takeWhile (\<lambda>x. x \<noteq> CHR ''.'') opt"

definition override_keyvalue :: "string \<Rightarrow> string" where
  "override_keyvalue opt = tl (dropWhile (\<lambda>x. x \<noteq> CHR ''.'') opt)"

definition override_key :: "string \<Rightarrow> string" where
  "override_key opt = takeWhile (\<lambda>x. x \<noteq> CHR '':'') (override_keyvalue opt)"

definition override_text :: "string \<Rightarrow> string" where
  "override_text opt = tl (dropWhile (\<lambda>x. x \<noteq> CHR '':'') (override_keyvalue opt))"

text \<open>The shape \<open>parse_overrides\<close> accepts: a dot, and exactly one colon after the first
  dot.\<close>

definition well_shaped :: "string \<Rightarrow> bool" where
  "well_shaped opt =
     (CHR ''.'' \<in> set opt \<and> count_list (override_keyvalue opt) CHR '':'' = 1)"

section \<open>Invariants and auxiliary notions\<close>

text \<open>What every parser state reached from the defaults satisfies: section names and
  option names occur once, and no section is called \<open>DEFAULT\<close>.\<close>

definition parser_ok :: "parser \<Rightarrow> bool" where
  "parser_ok p =
     (distinct (map fst (psects p)) \<and> ''DEFAULT'' \<notin> set (map fst (psects p)) \<and>
      distinct (map fst (pdefaults p)) \<and>
      list_all (\<lambda>s. distinct (map fst (snd s))) (psects p))"

text \<open>The dicts of the parsed overrides hold each key once.\<close>

definition overrides_ok :: "overrides \<Rightarrow> bool" where
  "overrides_ok ov =
     (distinct (map fst ov) \<and> list_all (\<lambda>sd. distinct (map fst (snd sd))) ov)"

text \<open>\<open>overrides[section][key]\<close>, when both are there.\<close>

definition override_lookup :: "overrides \<Rightarrow> string \<Rightarrow> string \<Rightarrow> pyval option" where
  "override_lookup ov s k = (case map_of ov s of None \<Rightarrow> None | Some od \<Rightarrow> map_of od k)"

text \<open>The defaults as the parser stores them.\<close>

definition default_texts :: "(string \<times> string) list" where
  "default_texts = map (\<lambda>kd. (fst kd, scalar_str (snd kd))) TRAIN_DEFAULTS"

text \<open>Text that passes through interpolation unchanged and that coercion and path
  resolution accept.\<close>

definition plain_value :: "env \<Rightarrow> string \<Rightarrow> bool" where
  "plain_value E t =
     (CHR ''$'' \<notin> set t \<and>
      (case parse_value E (Text t) of
         Inl e \<Rightarrow> False
       | Inr r \<Rightarrow> (case resolve_path E r of Inl e \<Rightarrow> False | Inr v \<Rightarrow> True)))"

definition example_ini :: ini where
  "example_ini =
     [(''train'', [(''batch_size'', ''64'')]),
      (''model'', []),
      (''tasks.a'', [(''x'', ''1'')]),
      (''tasks.b'', [(''y'', ''2'')])]"

text \<open>A file with a mistyped key, and the environment in which \<open>difflib\<close> answers for it:
  \<open>get_close_matches('lr_decya', keys, n=1)\<close> is \<open>['lr_decay']\<close>.\<close>

definition typo_ini :: ini where
  "typo_ini = [(''train'', [(''lr_decya'', ''plateau'')]), (''model'', [])]"

definition typo_env :: env where
  "typo_env = plain_env\<lparr>close_matches := (\<lambda>word keys. if word = ''lr_decya'' then [''lr_decay''] else [])\<rparr>"


section \<open>Evaluation\<close>

lemmas string_defs = startswith_any_def startswith_def to_upper_def to_lower_def strip_blanks_def
  is_blank_def is_ident_def is_letter_def is_digit_def lower_def

lemmas literal_defs = is_int_literal_def digits_val_def digit_val_def is_float_repr_def
  is_fixed_repr_def is_sci_repr_def is_mantissa_def is_int_part_def is_frac_part_def py_keywords_def

lemmas override_defs = parse_overrides_def override_entry_def split_first_def parse_value_def
  py_eval_def resolve_path_str_def is_pathlike_def

section \<open>Coercion: the keyword check\<close>

text \<open>
  C2. Coercion is claimed to return a value for every input string and never to raise.
  The keyword check of line 83 is a prefix check on the capitalised text, and the
  \<open>eval\<close> of line 84 is outside the \<open>try\<close>: the text \<open>nonetheless\<close> capitalises to
  \<open>Nonetheless\<close>, which starts with \<open>None\<close>, and evaluating that name raises
  \<open>NameError\<close>, which leaves \<open>_parse_value\<close>.
\<close>

theorem parse_value_nonetheless_raises:
  "parse_value E (Text ''nonetheless'') = Inl NameError"
  by (simp add: parse_value_def py_eval_def string_defs)

text \<open>
  C3. The keyword check is claimed to match whole tokens only, a token such as
  \<open>Falsey\<close> being handled by the literal parse and the string fallback. It is a prefix
  check: \<open>Falsey\<close> is sent to \<open>eval\<close> and raises \<open>NameError\<close> instead of coming back as
  the string, and \<open>True\<close> followed by a blank, which is not the keyword, comes back as
  the boolean.
\<close>

theorem parse_value_prefix_check:
  "parse_value E (Text ''Falsey'') = Inl NameError \<and>
   parse_value E (Text ''True '') = Inr (PBool True)"
  by (simp add: parse_value_def py_eval_def string_defs)

section \<open>Override parser: the accepted shape\<close>

lemma case_two:
  "(case xs of [] \<Rightarrow> d | [a] \<Rightarrow> d | [a, b] \<Rightarrow> f a b | a # b # c # r \<Rightarrow> d) =
     (if length xs = 2 then f (xs ! 0) (xs ! 1) else d)"
  by (auto split: list.splits)

lemma split_on_length: "length (split_on c s) = Suc (count_list s c)"
  by (induction s) (auto split: list.splits)

lemma split_on_absent: "c \<notin> set s \<Longrightarrow> split_on c s = [s]"
  by (induction s) (auto split: list.splits)

lemma split_on_once:
  "count_list s c = 1 \<Longrightarrow>
     split_on c s = [takeWhile (\<lambda>x. x \<noteq> c) s, tl (dropWhile (\<lambda>x. x \<noteq> c) s)]"
proof (induction s)
  case Nil
  then show ?case by simp
next
  case (Cons x xs)
  show ?case
  proof (cases "x = c")
    case True
    with Cons.prems have "count_list xs c = 0" by simp
    then have "c \<notin> set xs" by (simp add: count_list_0_iff)
    then have "split_on c xs = [xs]" by (rule split_on_absent)
    with True show ?thesis by simp
  next
    case False
    with Cons show ?thesis by simp
  qed
qed

lemma override_entry_shape:
  "override_entry E ov opt =
     (if well_shaped opt
      then (case resolve_path_str E (override_text opt) of
              Inl e \<Rightarrow> Inl e
            | Inr r \<Rightarrow>
                (case parse_value E r of
                   Inl e \<Rightarrow> Inl e
                 | Inr v \<Rightarrow>
                     Inr (AList.update (override_section opt)
                           (AList.update (override_key opt) v
                              (case map_of ov (override_section opt) of None \<Rightarrow> [] | Some d \<Rightarrow> d))
                           ov)))
      else Inl ValueError)"
proof (cases "CHR ''.'' \<in> set opt")
  case False
  then show ?thesis
    by (simp add: override_entry_def split_first_def well_shaped_def)
next
  case dot: True
  show ?thesis
  proof (cases "count_list (override_keyvalue opt) CHR '':'' = 1")
    case True
    then have cnt: "count_list (tl (dropWhile (\<lambda>x. x \<noteq> CHR ''.'') opt)) CHR '':'' = 1"
      by (simp add: override_keyvalue_def)
    from split_on_once [OF cnt] cnt dot show ?thesis
      by (simp add: override_entry_def split_first_def override_keyvalue_def well_shaped_def
          override_key_def override_text_def override_section_def split: sum.splits)
  next
    case False
    then have "length (split_on CHR '':'' (override_keyvalue opt)) \<noteq> 2"
      by (simp add: split_on_length)
    with dot False show ?thesis
      by (simp add: override_entry_def split_first_def case_two override_keyvalue_def
          well_shaped_def)
  qed
qed

lemma override_entry_InrD:
  assumes "override_entry E ov opt = Inr ov'"
  shows "\<exists>r v. well_shaped opt \<and> resolve_path_str E (override_text opt) = Inr r \<and>
           parse_value E r = Inr v \<and>
           ov' = AList.update (override_section opt)
                   (AList.update (override_key opt) v
                      (case map_of ov (override_section opt) of None \<Rightarrow> [] | Some d \<Rightarrow> d)) ov"
  using assms by (auto simp: override_entry_shape split: if_splits sum.splits)





section \<open>Ordered dicts and sequences of fallible steps\<close>

lemma update_fresh: "k \<notin> fst ` set d \<Longrightarrow> AList.update k v d = d @ [(k, v)]"
  by (induction d) auto

lemma dict_update_lookup:
  "map_of (dict_update d other) k =
     (case map_of (rev other) k of Some v \<Rightarrow> Some v | None \<Rightarrow> map_of d k)"
  unfolding dict_update_def
proof (induction other arbitrary: d)
  case Nil
  show ?case by simp
next
  case (Cons kv other)
  show ?case
    by (simp add: Cons.IH update_conv' map_add_def split: option.splits)
qed

lemma dict_update_distinct:
  "distinct (map fst d) \<Longrightarrow> distinct (map fst (dict_update d other))"
  unfolding dict_update_def
  by (induction other arbitrary: d) (simp_all add: distinct_update)

lemma dict_update_keys:
  "fst ` set (dict_update d other) = fst ` set d \<union> fst ` set other"
  unfolding dict_update_def
  by (induction other arbitrary: d) (auto simp: dom_update)

lemma dict_update_fresh:
  "distinct (map fst xs) \<Longrightarrow> fst ` set xs \<inter> fst ` set d = {} \<Longrightarrow> dict_update d xs = d @ xs"
  unfolding dict_update_def
proof (induction xs arbitrary: d)
  case Nil
  show ?case by simp
next
  case (Cons kv xs)
  from Cons.prems have fresh: "fst kv \<notin> fst ` set d" by auto
  have "fst ` set xs \<inter> fst ` set (d @ [kv]) = {}"
    using Cons.prems by auto
  with Cons.IH [of "d @ [kv]"] Cons.prems(1) fresh show ?case
    by (simp add: update_fresh)
qed

lemma dict_update_Nil: "distinct (map fst xs) \<Longrightarrow> dict_update [] xs = xs"
  using dict_update_fresh [of xs "[]"] by simp

lemma map_of_rev_distinct: "distinct (map fst xs) \<Longrightarrow> map_of (rev xs) = map_of xs"
  by (rule map_of_inject_set [THEN iffD2]) (auto simp: rev_map [symmetric])

lemma traverse_all2: "traverse f xs = Inr ys \<Longrightarrow> list_all2 (\<lambda>x y. f x = Inr y) xs ys"
  by (induction xs arbitrary: ys) (auto split: sum.splits)

lemma traverse_Inl: "x \<in> set xs \<Longrightarrow> f x = Inl e \<Longrightarrow> \<exists>e'. traverse f xs = Inl e'"
  by (induction xs) (auto split: sum.splits)


lemma set_update_subset: "set (AList.update k v al) \<subseteq> insert (k, v) (set al)"
  by (induction al) auto

lemma read_options_distinct:
  "read_options s added cur lines = Inr (cur', added') \<Longrightarrow> distinct (map fst cur)
     \<Longrightarrow> distinct (map fst cur')"
  by (induction lines arbitrary: added cur) (auto simp: distinct_update split: if_splits)

lemma read_options_untouched:
  "read_options s added cur lines = Inr (cur', added') \<Longrightarrow> k \<notin> lower ` fst ` set lines
     \<Longrightarrow> map_of cur' k = map_of cur k"
proof (induction lines arbitrary: added cur)
  case Nil
  then show ?case by simp
next
  case (Cons kv lines)
  obtain k0 v0 where kv: "kv = (k0, v0)" by (cases kv)
  from Cons.prems kv have ne: "lower k0 \<noteq> k" by auto
  from Cons.prems kv have
    rec: "read_options s ((s, lower k0) # added) (AList.update (lower k0) v0 cur) lines
            = Inr (cur', added')"
    by (simp split: if_splits)
  from Cons.prems have "k \<notin> lower ` fst ` set lines" by auto
  from Cons.IH [OF rec this] ne show ?case by (simp add: update_conv')
qed

lemma read_ini_ok:
  "read_ini p secs added data = Inr p' \<Longrightarrow> parser_ok p \<Longrightarrow>
     parser_ok p' \<and>
     set (map fst (psects p')) = set (map fst (psects p)) \<union> (fst ` set data - {''DEFAULT''})"
proof (induction data arbitrary: p secs added)
  case Nil
  then show ?case by simp
next
  case (Cons nl data)
  obtain name lines where nl: "nl = (name, lines)" by (cases nl)
  show ?case
  proof (cases "name \<in> set (map fst (psects p))")
    case True
    then obtain c where c: "map_of (psects p) name = Some c"
      by (metis map_of_eq_None_iff not_Some_eq set_map)
    from Cons.prems(1) nl True c obtain cur added' where
      ro: "read_options name added c lines = Inr (cur, added')" and
      rec: "read_ini (p\<lparr>psects := AList.update name cur (psects p)\<rparr>) (name # secs) added' data
              = Inr p'"
      by (auto split: if_splits sum.splits)
    from c have cin: "(name, c) \<in> set (psects p)" by (rule map_of_SomeD)
    with Cons.prems(2) have "distinct (map fst c)"
      by (auto simp: parser_ok_def list_all_iff)
    from read_options_distinct [OF ro this] have dcur: "distinct (map fst cur)" .
    have ok: "parser_ok (p\<lparr>psects := AList.update name cur (psects p)\<rparr>)"
      using Cons.prems(2) dcur True set_update_subset [of name cur "psects p"]
      by (auto simp: parser_ok_def list_all_iff distinct_update update_keys)
    from Cons.IH [OF rec ok] True nl show ?thesis
      using Cons.prems(2) by (auto simp: dom_update parser_ok_def)
  next
    case False
    show ?thesis
    proof (cases "name = ''DEFAULT''")
      case True
      from Cons.prems(1) nl False True obtain cur added' where
        ro: "read_options name added (pdefaults p) lines = Inr (cur, added')" and
        rec: "read_ini (p\<lparr>pdefaults := cur\<rparr>) secs added' data = Inr p'"
        by (auto split: sum.splits)
      from Cons.prems(2) have "distinct (map fst (pdefaults p))" by (simp add: parser_ok_def)
      from read_options_distinct [OF ro this] Cons.prems(2)
      have ok: "parser_ok (p\<lparr>pdefaults := cur\<rparr>)" by (simp add: parser_ok_def)
      from Cons.IH [OF rec ok] True nl show ?thesis by auto
    next
      case nd: False
      from Cons.prems(1) nl False nd obtain cur added' where
        ro: "read_options name added [] lines = Inr (cur, added')" and
        rec: "read_ini (p\<lparr>psects := psects p @ [(name, cur)]\<rparr>) (name # secs) added' data
                = Inr p'"
        by (auto split: sum.splits)
      from read_options_distinct [OF ro] have "distinct (map fst cur)" by simp
      with Cons.prems(2) False nd
      have ok: "parser_ok (p\<lparr>psects := psects p @ [(name, cur)]\<rparr>)"
        by (auto simp: parser_ok_def)
      from Cons.IH [OF rec ok] nl nd show ?thesis by auto
    qed
  qed
qed


lemma defaults_distinct: "distinct (map fst TRAIN_DEFAULTS)"
  by (simp add: TRAIN_DEFAULTS_def)

lemma defaults_lower: "map (\<lambda>kd. lower (fst kd)) TRAIN_DEFAULTS = map fst TRAIN_DEFAULTS"
  by (simp add: TRAIN_DEFAULTS_def lower_def to_lower_def)

lemma fold_update_map:
  "fold (\<lambda>x acc. AList.update (f x) (g x) acc) xs d = dict_update d (map (\<lambda>x. (f x, g x)) xs)"
  by (simp add: dict_update_def fold_map comp_def)

lemma read_defaults_psects:
  "psects read_defaults =
     [(''train'', map (\<lambda>kd. (fst kd, scalar_str (snd kd))) TRAIN_DEFAULTS)]"
proof -
  have keys: "map fst (map (\<lambda>kd. (lower (fst kd), scalar_str (snd kd))) TRAIN_DEFAULTS)
      = map fst TRAIN_DEFAULTS"
    using defaults_lower by (simp add: comp_def)
  have "map (\<lambda>kd. (lower (fst kd), scalar_str (snd kd))) TRAIN_DEFAULTS
      = map (\<lambda>kd. (fst kd, scalar_str (snd kd))) TRAIN_DEFAULTS"
    using defaults_lower by (simp add: list_eq_iff_nth_eq)
  moreover have "dict_update [] (map (\<lambda>kd. (lower (fst kd), scalar_str (snd kd))) TRAIN_DEFAULTS)
      = map (\<lambda>kd. (lower (fst kd), scalar_str (snd kd))) TRAIN_DEFAULTS"
    by (rule dict_update_Nil) (simp only: keys defaults_distinct)
  ultimately show ?thesis
    by (simp add: read_defaults_def fold_update_map)
qed

lemma read_defaults_ok: "parser_ok read_defaults"
  using defaults_distinct
  by (simp add: parser_ok_def read_defaults_psects comp_def) (simp add: read_defaults_def)

lemma default_roundtrip:
  "list_all (\<lambda>kd. parse_value E (Text (scalar_str (snd kd))) = Inr (scalar_val (snd kd)) \<and>
                  resolve_path E (scalar_val (snd kd)) = Inr (scalar_val (snd kd)) \<and>
                  CHR ''$'' \<notin> set (scalar_str (snd kd))) TRAIN_DEFAULTS"
  by (simp add: TRAIN_DEFAULTS_def parse_value_def py_eval_def is_pathlike_def int_str_def
      nat_str.simps digit_char_def string_defs literal_defs)


lemma read_ini_train:
  "read_ini p secs added data = Inr p' \<Longrightarrow> map_of (psects p) ''train'' = Some sec \<Longrightarrow>
   map_of sec k = Some t \<Longrightarrow>
   (\<forall>nl \<in> set data. fst nl = ''train'' \<longrightarrow> k \<notin> lower ` fst ` set (snd nl)) \<Longrightarrow>
   \<exists>sec'. map_of (psects p') ''train'' = Some sec' \<and> map_of sec' k = Some t"
proof (induction data arbitrary: p secs added sec)
  case Nil
  then show ?case by simp
next
  case (Cons nl data)
  obtain name lines where nl: "nl = (name, lines)" by (cases nl)
  from Cons.prems(4) have rest: "\<forall>nl \<in> set data. fst nl = ''train'' \<longrightarrow> k \<notin> lower ` fst ` set (snd nl)"
    by simp
  from Cons.prems(2) have tin: "''train'' \<in> set (map fst (psects p))"
    by (metis map_of_eq_None_iff option.distinct(1) set_map)
  show ?case
  proof (cases "name \<in> set (map fst (psects p))")
    case True
    then obtain c where c: "map_of (psects p) name = Some c"
      by (metis map_of_eq_None_iff not_Some_eq set_map)
    from Cons.prems(1) nl True c obtain cur added' where
      ro: "read_options name added c lines = Inr (cur, added')" and
      rec: "read_ini (p\<lparr>psects := AList.update name cur (psects p)\<rparr>) (name # secs) added' data
              = Inr p'"
      by (auto split: if_splits sum.splits)
    show ?thesis
    proof (cases "name = ''train''")
      case tr: True
      with Cons.prems(4) nl have "k \<notin> lower ` fst ` set lines" by simp
      from read_options_untouched [OF ro this] c tr Cons.prems(2,3)
      have "map_of cur k = Some t" by simp
      moreover have "map_of (psects (p\<lparr>psects := AList.update name cur (psects p)\<rparr>)) ''train''
          = Some cur"
        using tr by (simp add: update_conv')
      ultimately show ?thesis using Cons.IH [OF rec _ _ rest] by blast
    next
      case False
      then have "map_of (psects (p\<lparr>psects := AList.update name cur (psects p)\<rparr>)) ''train''
          = Some sec"
        using Cons.prems(2) by (simp add: update_conv')
      from Cons.IH [OF rec this Cons.prems(3) rest] show ?thesis .
    qed
  next
    case False
    with tin have ntr: "name \<noteq> ''train''" by auto
    show ?thesis
    proof (cases "name = ''DEFAULT''")
      case True
      from Cons.prems(1) nl False True obtain cur added' where
        rec: "read_ini (p\<lparr>pdefaults := cur\<rparr>) secs added' data = Inr p'"
        by (auto split: sum.splits)
      have "map_of (psects (p\<lparr>pdefaults := cur\<rparr>)) ''train'' = Some sec"
        using Cons.prems(2) by simp
      from Cons.IH [OF rec this Cons.prems(3) rest] show ?thesis .
    next
      case nd: False
      from Cons.prems(1) nl False nd obtain cur added' where
        rec: "read_ini (p\<lparr>psects := psects p @ [(name, cur)]\<rparr>) (name # secs) added' data
                = Inr p'"
        by (auto split: sum.splits)
      have "map_of (psects (p\<lparr>psects := psects p @ [(name, cur)]\<rparr>)) ''train'' = Some sec"
        using Cons.prems(2) ntr by (simp add: map_add_def)
      from Cons.IH [OF rec this Cons.prems(3) rest] show ?thesis .
    qed
  qed
qed

lemma section_opts_fst: "section_opts E p ov s = Inr y \<Longrightarrow> fst y = s"
  by (auto simp: section_opts_def split: sum.splits)

lemma list_all2_fst_eq:
  "list_all2 (\<lambda>x y. f x = Inr y) xs ys \<Longrightarrow> (\<And>x y. f x = Inr y \<Longrightarrow> fst y = x)
     \<Longrightarrow> map fst ys = xs"
  by (induction rule: list_all2_induct) auto

lemma list_all2_lookup:
  "list_all2 (\<lambda>x y. f x = Inr y) xs ys \<Longrightarrow> x \<in> set xs \<Longrightarrow> \<exists>y \<in> set ys. f x = Inr y"
  by (induction rule: list_all2_induct) auto

lemma init_sectionsD:
  assumes "init_sections E fname data ovl = Inr cfg"
  shows "\<exists>p ov. read_string read_defaults data = Inr p \<and> parser_ok p \<and>
           (case ovl of None \<Rightarrow> Inr [] | Some l \<Rightarrow> parse_overrides E l) = Inr ov \<and>
           check_sections (parser_sections p) = Inr () \<and>
           filename cfg = fname \<and> oparser cfg = p \<and> ooverrides cfg = ov \<and>
           map fst (psections cfg) = parser_sections p \<and>
           distinct (map fst (psections cfg)) \<and>
           (\<forall>s \<in> set (parser_sections p).
              \<exists>opts. section_opts E p ov s = Inr (s, opts) \<and>
                     map_of (psections cfg) s = Some opts)"
proof -
  from assms obtain p ov ps where
    rs: "read_string read_defaults data = Inr p" and
    ov: "(case ovl of None \<Rightarrow> Inr [] | Some l \<Rightarrow> parse_overrides E l) = Inr ov" and
    cs: "check_sections (parser_sections p) = Inr ()" and
    tr: "traverse (section_opts E p ov) (parser_sections p) = Inr ps" and
    cfg: "cfg = \<lparr>filename = fname, oparser = p, ooverrides = ov, psections = dict_update [] ps\<rparr>"
    by (auto simp: init_sections_def split: sum.splits)
  from rs read_defaults_ok have ok: "parser_ok p"
    using read_ini_ok by (auto simp: read_string_def)
  then have dist: "distinct (parser_sections p)"
    by (simp add: parser_ok_def parser_sections_def)
  from traverse_all2 [OF tr]
  have all2: "list_all2 (\<lambda>x y. section_opts E p ov x = Inr y) (parser_sections p) ps" .
  from list_all2_fst_eq [OF all2] section_opts_fst
  have keys: "map fst ps = parser_sections p" by blast
  with dist have dps: "distinct (map fst ps)" by simp
  then have same: "dict_update [] ps = ps" by (rule dict_update_Nil)
  have look: "\<exists>opts. section_opts E p ov s = Inr (s, opts) \<and> map_of ps s = Some opts"
    if "s \<in> set (parser_sections p)" for s
  proof -
    from list_all2_lookup [OF all2 that] obtain y where
      y: "y \<in> set ps" "section_opts E p ov s = Inr y" by blast
    from section_opts_fst [OF y(2)] have "y = (s, snd y)" by (cases y) simp
    with y dps show ?thesis by (metis map_of_is_SomeI)
  qed
  from rs ok ov cs cfg keys dps same look show ?thesis by auto
qed

lemma traverse_map: "(\<And>x. x \<in> set xs \<Longrightarrow> f x = Inr (g x)) \<Longrightarrow> traverse f xs = Inr (map g xs)"
  by (induction xs) auto

lemma list_all2_keys:
  "list_all2 (\<lambda>x y. f x = Inr y) xs ys \<Longrightarrow> (\<And>x y. f x = Inr y \<Longrightarrow> fst y = h x)
     \<Longrightarrow> map fst ys = map h xs"
  by (induction rule: list_all2_induct) auto

lemma dict_update_lookup_distinct:
  "distinct (map fst other) \<Longrightarrow>
     map_of (dict_update d other) k =
       (case map_of other k of Some v \<Rightarrow> Some v | None \<Rightarrow> map_of d k)"
  by (simp add: dict_update_lookup map_of_rev_distinct)

lemma interp_item_fst: "interp_item E p s kv = Inr y \<Longrightarrow> fst y = fst kv"
  by (auto simp: interp_item_def split: sum.splits)

lemma coerce_item_fst: "coerce_item E kv = Inr y \<Longrightarrow> fst y = fst kv"
  by (auto simp: coerce_item_def split: sum.splits)

lemma section_optsD:
  assumes so: "section_opts E p ov s = Inr (s, opts)"
    and sec: "map_of (psects p) s = Some sec"
  shows "\<exists>kvs parsed.
           list_all2 (\<lambda>x y. interp_item E p s x = Inr y) (dict_update (pdefaults p) sec) kvs \<and>
           list_all2 (\<lambda>x y. coerce_item E x = Inr y) kvs parsed \<and>
           map fst kvs = map fst (dict_update (pdefaults p) sec) \<and>
           map fst parsed = map fst (dict_update (pdefaults p) sec) \<and>
           opts = (case map_of ov s of None \<Rightarrow> dict_update [] parsed
                   | Some d \<Rightarrow> dict_update (dict_update [] parsed) d)"
proof -
  from so sec obtain kvs parsed where
    it: "traverse (interp_item E p s) (dict_update (pdefaults p) sec) = Inr kvs" and
    co: "traverse (coerce_item E) kvs = Inr parsed" and
    opts: "opts = (case map_of ov s of None \<Rightarrow> dict_update [] parsed
                   | Some d \<Rightarrow> dict_update (dict_update [] parsed) d)"
    by (auto simp: section_opts_def items_def split: sum.splits)
  note a = traverse_all2 [OF it] and b = traverse_all2 [OF co]
  have k1: "map fst kvs = map fst (dict_update (pdefaults p) sec)"
    by (rule list_all2_keys [OF a]) (rule interp_item_fst)
  have "map fst parsed = map fst kvs"
    by (rule list_all2_keys [OF b]) (rule coerce_item_fst)
  with a b k1 opts show ?thesis by auto
qed

lemma section_opts_keys:
  assumes so: "section_opts E p ov s = Inr (s, opts)"
    and sec: "map_of (psects p) s = Some sec"
  shows "fst ` set opts =
           fst ` set (pdefaults p) \<union> fst ` set sec \<union>
           (case map_of ov s of None \<Rightarrow> {} | Some d \<Rightarrow> fst ` set d)"
proof -
  from section_optsD [OF so sec] obtain parsed where
    keys: "map fst parsed = map fst (dict_update (pdefaults p) sec)" and
    opts: "opts = (case map_of ov s of None \<Rightarrow> dict_update [] parsed
                   | Some d \<Rightarrow> dict_update (dict_update [] parsed) d)"
    by blast
  from keys have "fst ` set parsed = fst ` set (dict_update (pdefaults p) sec)"
    by (metis list.set_map)
  then have "fst ` set parsed = fst ` set (pdefaults p) \<union> fst ` set sec"
    by (simp add: dict_update_keys)
  with opts show ?thesis
    by (simp add: dict_update_keys split: option.splits)
qed

lemma section_opts_distinct:
  "section_opts E p ov s = Inr (s, opts) \<Longrightarrow> distinct (map fst opts)"
  by (auto simp: section_opts_def dict_update_distinct split: sum.splits option.splits)

lemma section_opts_override:
  assumes so: "section_opts E p ov s = Inr (s, opts)"
    and od: "map_of ov s = Some od" "distinct (map fst od)" "map_of od k = Some v"
  shows "map_of opts k = Some v"
  using so od
  by (auto simp: section_opts_def dict_update_lookup_distinct split: sum.splits)

lemma section_opts_file:
  assumes so: "section_opts E p ov s = Inr (s, opts)"
    and ok: "parser_ok p"
    and sec: "map_of (psects p) s = Some sec"
    and kt: "map_of sec k = Some t" "CHR ''$'' \<notin> set t"
    and no: "case map_of ov s of None \<Rightarrow> True | Some od \<Rightarrow> k \<notin> fst ` set od"
  shows "\<exists>v w. parse_value E (Text t) = Inr v \<and> resolve_path E v = Inr w \<and>
           map_of opts k = Some w"
proof -
  let ?d = "dict_update (pdefaults p) sec"
  from section_optsD [OF so sec] obtain kvs parsed where
    a: "list_all2 (\<lambda>x y. interp_item E p s x = Inr y) ?d kvs" and
    b: "list_all2 (\<lambda>x y. coerce_item E x = Inr y) kvs parsed" and
    k1: "map fst kvs = map fst ?d" and
    k2: "map fst parsed = map fst ?d" and
    opts: "opts = (case map_of ov s of None \<Rightarrow> dict_update [] parsed
                   | Some d \<Rightarrow> dict_update (dict_update [] parsed) d)"
    by blast
  from sec have "(s, sec) \<in> set (psects p)" by (rule map_of_SomeD)
  with ok have dsec: "distinct (map fst sec)" by (auto simp: parser_ok_def list_all_iff)
  from ok have "distinct (map fst (pdefaults p))" by (simp add: parser_ok_def)
  then have dd: "distinct (map fst ?d)" by (rule dict_update_distinct)
  from kt(1) dsec have "map_of ?d k = Some t" by (simp add: dict_update_lookup_distinct)
  then have "(k, t) \<in> set ?d" by (rule map_of_SomeD)
  from list_all2_lookup [OF a this] kt(2) have "(k, t) \<in> set kvs"
    by (auto simp: interp_item_def interpolate_def)
  from list_all2_lookup [OF b this] obtain v w where
    v: "parse_value E (Text t) = Inr v" "resolve_path E v = Inr w" and "(k, w) \<in> set parsed"
    by (auto simp: coerce_item_def split: sum.splits)
  with dd k2 have "map_of parsed k = Some w"
    by (simp add: map_of_is_SomeI)
  moreover from dd k2 have "dict_update [] parsed = parsed" by (simp add: dict_update_Nil)
  ultimately have "map_of opts k = Some w"
    using opts no
    by (auto simp: dict_update_lookup map_of_eq_None_iff [THEN iffD2] split: option.splits)
  with v show ?thesis by blast
qed

lemma override_entry_ok:
  assumes "override_entry E ov opt = Inr ov'" "overrides_ok ov"
  shows "overrides_ok ov'"
proof -
  from override_entry_InrD [OF assms(1)] obtain v where
    ov': "ov' = AList.update (override_section opt)
            (AList.update (override_key opt) v
               (case map_of ov (override_section opt) of None \<Rightarrow> [] | Some d \<Rightarrow> d)) ov"
    by blast
  let ?base = "case map_of ov (override_section opt) of None \<Rightarrow> [] | Some d \<Rightarrow> d"
  let ?inner = "AList.update (override_key opt) v ?base"
  have "distinct (map fst ?base)"
    using assms(2) by (auto simp: overrides_ok_def list_all_iff split: option.splits dest: map_of_SomeD)
  then have inner: "distinct (map fst ?inner)"
    by (rule distinct_update)
  have sub: "set (AList.update (override_section opt) ?inner ov)
      \<subseteq> insert (override_section opt, ?inner) (set ov)"
    by (rule set_update_subset)
  have "distinct (map fst sd_snd)" if "(sd_fst, sd_snd) \<in> set ov'" for sd_fst sd_snd
  proof -
    from that sub ov' have "(sd_fst, sd_snd) = (override_section opt, ?inner) \<or> (sd_fst, sd_snd) \<in> set ov"
      by auto
    with inner assms(2) show ?thesis by (auto simp: overrides_ok_def list_all_iff)
  qed
  moreover have "distinct (map fst ov')"
    using assms(2) by (simp add: ov' overrides_ok_def distinct_update)
  ultimately show ?thesis by (auto simp: overrides_ok_def list_all_iff)
qed

lemma override_entry_lookup:
  assumes "override_entry E ov opt = Inr ov'"
  shows "\<exists>r v. resolve_path_str E (override_text opt) = Inr r \<and> parse_value E r = Inr v \<and>
           (\<forall>s k. override_lookup ov' s k =
              (if s = override_section opt \<and> k = override_key opt then Some v
               else override_lookup ov s k))"
proof -
  from override_entry_InrD [OF assms] obtain r v where
    v: "resolve_path_str E (override_text opt) = Inr r" "parse_value E r = Inr v" and
    ov': "ov' = AList.update (override_section opt)
            (AList.update (override_key opt) v
               (case map_of ov (override_section opt) of None \<Rightarrow> [] | Some d \<Rightarrow> d)) ov"
    by blast
  have "override_lookup ov' s k =
          (if s = override_section opt \<and> k = override_key opt then Some v
           else override_lookup ov s k)" for s k
    unfolding ov' override_lookup_def
    by (simp add: update_conv' split: option.splits)
  with v show ?thesis by blast
qed

lemma parse_overrides_from_ok:
  "parse_overrides_from E ov l = Inr ov' \<Longrightarrow> overrides_ok ov \<Longrightarrow> overrides_ok ov'"
  by (induction l arbitrary: ov) (auto split: sum.splits dest: override_entry_ok)

lemma parse_overrides_ok: "parse_overrides E l = Inr ov \<Longrightarrow> overrides_ok ov"
  unfolding parse_overrides_def
  by (erule parse_overrides_from_ok) (simp add: overrides_ok_def)

lemma parse_overrides_from_untouched:
  "parse_overrides_from E ov l = Inr ov' \<Longrightarrow>
   (\<forall>opt \<in> set l. \<not> (override_section opt = s \<and> override_key opt = k)) \<Longrightarrow>
   override_lookup ov' s k = override_lookup ov s k"
proof (induction l arbitrary: ov)
  case Nil
  then show ?case by simp
next
  case (Cons opt l)
  from Cons.prems(1) obtain ov1 where
    e: "override_entry E ov opt = Inr ov1" and r: "parse_overrides_from E ov1 l = Inr ov'"
    by (auto split: sum.splits)
  from Cons.prems(2) have rest: "\<forall>opt \<in> set l. \<not> (override_section opt = s \<and> override_key opt = k)"
    by simp
  from override_entry_lookup [OF e] Cons.prems(2)
  have "override_lookup ov1 s k = override_lookup ov s k" by auto
  with Cons.IH [OF r rest] show ?case by simp
qed

lemma parse_overrides_from_last_wins:
  "parse_overrides_from E ov (l1 @ opt # l2) = Inr ov' \<Longrightarrow>
   (\<forall>x \<in> set l2. \<not> (override_section x = override_section opt \<and>
                      override_key x = override_key opt)) \<Longrightarrow>
   \<exists>r v. resolve_path_str E (override_text opt) = Inr r \<and> parse_value E r = Inr v \<and>
       override_lookup ov' (override_section opt) (override_key opt) = Some v"
proof (induction l1 arbitrary: ov)
  case Nil
  from Nil(1) obtain ov1 where
    e: "override_entry E ov opt = Inr ov1" and r: "parse_overrides_from E ov1 l2 = Inr ov'"
    by (auto split: sum.splits)
  from override_entry_lookup [OF e] obtain r v where
    v: "resolve_path_str E (override_text opt) = Inr r" "parse_value E r = Inr v" and
    "override_lookup ov1 (override_section opt) (override_key opt) = Some v"
    by auto
  with parse_overrides_from_untouched [OF r Nil(2)] show ?case by auto
next
  case (Cons x l1)
  then show ?case by (auto split: sum.splits)
qed

lemma fold_max_less: "fold max ns n < (m::nat) \<longleftrightarrow> n < m \<and> (\<forall>x \<in> set ns. x < m)"
  by (induction ns arbitrary: n) auto

lemma check_sectionsD:
  assumes "check_sections secs = Inr ()"
  shows "''train'' \<in> set secs" "''model'' \<in> set secs"
    "\<And>s. s \<in> set secs \<Longrightarrow> s = ''train'' \<or> s = ''model'' \<or> startswith s ''tasks.''"
    "\<And>s. s \<in> set secs \<Longrightarrow> count_list s CHR ''.'' < 2"
proof -
  from assms show t: "''train'' \<in> set secs"
    by (simp add: check_sections_def split: if_splits)
  from assms have "''model'' \<in> set (remove1 ''train'' secs)"
    by (simp add: check_sections_def split: if_splits)
  then show "''model'' \<in> set secs" by (metis notin_set_remove1)
  from assms have all: "list_all (\<lambda>s. startswith s ''tasks.'') (remove1 ''model'' (remove1 ''train'' secs))"
    by (simp add: check_sections_def split: if_splits)
  show "s = ''train'' \<or> s = ''model'' \<or> startswith s ''tasks.''" if "s \<in> set secs" for s
  proof (cases "s = ''train'' \<or> s = ''model''")
    case True
    then show ?thesis by blast
  next
    case False
    with that have "s \<in> set (remove1 ''model'' (remove1 ''train'' secs))" by simp
    with all show ?thesis by (simp add: list_all_iff)
  qed
  from assms t obtain n ns where
    m: "map (\<lambda>s. count_list s CHR ''.'') secs = n # ns" and "fold max ns n < 2"
    by (auto simp: check_sections_def split: if_splits list.splits)
  then have "\<forall>x \<in> set (n # ns). x < 2" by (simp add: fold_max_less)
  with m have "\<forall>x \<in> set (map (\<lambda>s. count_list s CHR ''.'') secs). x < 2" by simp
  then show "count_list s CHR ''.'' < 2" if "s \<in> set secs" for s
    using that by simp
qed

lemma load_InrD: "load E fname data ovl = (out, Inr cfg) \<Longrightarrow> init_sections E fname data ovl = Inr cfg"
  by (auto simp: load_def split: sum.splits prod.splits)

lemma init_train:
  assumes "init_sections E fname data ovl = Inr cfg"
  shows "\<exists>p ov sec tr.
           read_string read_defaults data = Inr p \<and> parser_ok p \<and>
           (case ovl of None \<Rightarrow> Inr [] | Some l \<Rightarrow> parse_overrides E l) = Inr ov \<and>
           map_of (psects p) ''train'' = Some sec \<and>
           section_opts E p ov ''train'' = Inr (''train'', tr) \<and>
           map_of (psections cfg) ''train'' = Some tr \<and> distinct (map fst tr)"
proof -
  from init_sectionsD [OF assms] obtain p ov where
    rs: "read_string read_defaults data = Inr p" "parser_ok p" and
    ov: "(case ovl of None \<Rightarrow> Inr [] | Some l \<Rightarrow> parse_overrides E l) = Inr ov" and
    cs: "check_sections (parser_sections p) = Inr ()" and
    look: "\<forall>s \<in> set (parser_sections p).
              \<exists>opts. section_opts E p ov s = Inr (s, opts) \<and>
                     map_of (psections cfg) s = Some opts"
    by blast
  from check_sectionsD(1) [OF cs] have t: "''train'' \<in> set (parser_sections p)" .
  with look obtain tr where
    tr: "section_opts E p ov ''train'' = Inr (''train'', tr)"
        "map_of (psections cfg) ''train'' = Some tr"
    by blast
  from t obtain sec where "map_of (psects p) ''train'' = Some sec"
    by (auto simp: parser_sections_def) (metis map_of_eq_None_iff not_Some_eq image_eqI fst_conv)
  with rs ov tr section_opts_distinct [OF tr(1)] show ?thesis by blast
qed

lemma load_sanity:
  assumes "init_sections E fname data ovl = Inr cfg"
    and "map_of (psections cfg) ''train'' = Some tr"
  shows "load E fname data ovl =
           (map (unknown_msg E fname) (filter (\<lambda>k. k \<notin> set (map fst TRAIN_DEFAULTS)) (map fst tr)),
            if filter (\<lambda>k. k \<notin> set (map fst TRAIN_DEFAULTS)) (map fst tr) = [] then Inr cfg
            else Inl (SystemExit 1))"
proof -
  from init_train [OF assms(1)] assms(2) have d: "distinct (map fst tr)" by auto
  from init_sectionsD [OF assms(1)] have f: "filename cfg = fname" by blast
  from d have r: "remdups (map fst tr) = map fst tr" by (rule distinct_remdups_id)
  from assms f show ?thesis
    by (simp add: load_def sanity_check_def getitem_def invalid_keys_def Let_def r)
qed

lemma read_defaults_eq: "read_defaults = \<lparr>pdefaults = [], psects = [(''train'', default_texts)]\<rparr>"
  using read_defaults_psects by (simp add: read_defaults_def default_texts_def)

lemma default_texts_keys: "map fst default_texts = map fst TRAIN_DEFAULTS"
  by (simp add: default_texts_def comp_def)

lemma default_texts_plain: "kt \<in> set default_texts \<Longrightarrow> plain_value E (snd kt)"
  using default_roundtrip [of E]
  by (auto simp: default_texts_def plain_value_def list_all_iff)

lemma read_options_entries:
  "read_options s added cur lines = Inr (cur', added') \<Longrightarrow> (\<forall>kt \<in> set cur. Q (fst kt) (snd kt)) \<Longrightarrow>
   (\<forall>kt \<in> set lines. Q (lower (fst kt)) (snd kt)) \<Longrightarrow> (\<forall>kt \<in> set cur'. Q (fst kt) (snd kt))"
proof (induction lines arbitrary: added cur)
  case Nil
  then show ?case by simp
next
  case (Cons kv lines)
  obtain k0 v0 where kv: "kv = (k0, v0)" by (cases kv)
  from Cons.prems(1) kv have
    rec: "read_options s ((s, lower k0) # added) (AList.update (lower k0) v0 cur) lines
            = Inr (cur', added')"
    by (simp split: if_splits)
  have "\<forall>kt \<in> set (AList.update (lower k0) v0 cur). Q (fst kt) (snd kt)"
  proof
    fix kt assume "kt \<in> set (AList.update (lower k0) v0 cur)"
    with set_update_subset [of "lower k0" v0 cur]
    have "kt = (lower k0, v0) \<or> kt \<in> set cur" by auto
    with Cons.prems(2,3) kv show "Q (fst kt) (snd kt)" by fastforce
  qed
  from Cons.IH [OF rec this] Cons.prems(3) show ?case by simp
qed

lemma read_ini_entries:
  "read_ini p secs added data = Inr p' \<Longrightarrow>
   (\<forall>ns \<in> set (psects p). \<forall>kt \<in> set (snd ns). R (fst ns) (fst kt) (snd kt)) \<Longrightarrow>
   (\<forall>kt \<in> set (pdefaults p). R ''DEFAULT'' (fst kt) (snd kt)) \<Longrightarrow>
   (\<forall>nl \<in> set data. \<forall>kt \<in> set (snd nl). R (fst nl) (lower (fst kt)) (snd kt)) \<Longrightarrow>
   (\<forall>ns \<in> set (psects p'). \<forall>kt \<in> set (snd ns). R (fst ns) (fst kt) (snd kt)) \<and>
   (\<forall>kt \<in> set (pdefaults p'). R ''DEFAULT'' (fst kt) (snd kt))"
proof (induction data arbitrary: p secs added)
  case Nil
  then show ?case by simp
next
  case (Cons nl data)
  obtain name lines where nl: "nl = (name, lines)" by (cases nl)
  from Cons.prems(4) nl have
    here: "\<forall>kt \<in> set lines. R name (lower (fst kt)) (snd kt)" and
    rest: "\<forall>nl \<in> set data. \<forall>kt \<in> set (snd nl). R (fst nl) (lower (fst kt)) (snd kt)"
    by auto
  show ?case
  proof (cases "name \<in> set (map fst (psects p))")
    case True
    then obtain c where c: "map_of (psects p) name = Some c"
      by (metis map_of_eq_None_iff not_Some_eq set_map)
    from Cons.prems(1) nl True c obtain cur added' where
      ro: "read_options name added c lines = Inr (cur, added')" and
      rec: "read_ini (p\<lparr>psects := AList.update name cur (psects p)\<rparr>) (name # secs) added' data
              = Inr p'"
      by (auto split: if_splits sum.splits)
    from c have "(name, c) \<in> set (psects p)" by (rule map_of_SomeD)
    with Cons.prems(2) have "\<forall>kt \<in> set c. R name (fst kt) (snd kt)" by fastforce
    from read_options_entries [OF ro this here]
    have cur: "\<forall>kt \<in> set cur. R name (fst kt) (snd kt)" .
    have a: "\<forall>ns \<in> set (psects (p\<lparr>psects := AList.update name cur (psects p)\<rparr>)).
               \<forall>kt \<in> set (snd ns). R (fst ns) (fst kt) (snd kt)"
    proof
      fix ns assume "ns \<in> set (psects (p\<lparr>psects := AList.update name cur (psects p)\<rparr>))"
      with set_update_subset [of name cur "psects p"]
      have "ns = (name, cur) \<or> ns \<in> set (psects p)" by auto
      with cur Cons.prems(2) show "\<forall>kt \<in> set (snd ns). R (fst ns) (fst kt) (snd kt)" by fastforce
    qed
    have b: "\<forall>kt \<in> set (pdefaults (p\<lparr>psects := AList.update name cur (psects p)\<rparr>)).
               R ''DEFAULT'' (fst kt) (snd kt)"
      using Cons.prems(3) by simp
    from Cons.IH [OF rec a b rest] show ?thesis .
  next
    case False
    show ?thesis
    proof (cases "name = ''DEFAULT''")
      case True
      from Cons.prems(1) nl False True obtain cur added' where
        ro: "read_options name added (pdefaults p) lines = Inr (cur, added')" and
        rec: "read_ini (p\<lparr>pdefaults := cur\<rparr>) secs added' data = Inr p'"
        by (auto split: sum.splits)
      from Cons.prems(3) True have "\<forall>kt \<in> set (pdefaults p). R name (fst kt) (snd kt)" by simp
      from read_options_entries [OF ro this here] True
      have b: "\<forall>kt \<in> set (pdefaults (p\<lparr>pdefaults := cur\<rparr>)). R ''DEFAULT'' (fst kt) (snd kt)"
        by simp
      have a: "\<forall>ns \<in> set (psects (p\<lparr>pdefaults := cur\<rparr>)).
                 \<forall>kt \<in> set (snd ns). R (fst ns) (fst kt) (snd kt)"
        using Cons.prems(2) by simp
      from Cons.IH [OF rec a b rest] show ?thesis .
    next
      case nd: False
      from Cons.prems(1) nl False nd obtain cur added' where
        ro: "read_options name added [] lines = Inr (cur, added')" and
        rec: "read_ini (p\<lparr>psects := psects p @ [(name, cur)]\<rparr>) (name # secs) added' data
                = Inr p'"
        by (auto split: sum.splits)
      from read_options_entries [OF ro _ here]
      have cur: "\<forall>kt \<in> set cur. R name (fst kt) (snd kt)" by simp
      have a: "\<forall>ns \<in> set (psects (p\<lparr>psects := psects p @ [(name, cur)]\<rparr>)).
                 \<forall>kt \<in> set (snd ns). R (fst ns) (fst kt) (snd kt)"
      proof
        fix ns assume "ns \<in> set (psects (p\<lparr>psects := psects p @ [(name, cur)]\<rparr>))"
        then have "ns = (name, cur) \<or> ns \<in> set (psects p)" by auto
        with cur Cons.prems(2) show "\<forall>kt \<in> set (snd ns). R (fst ns) (fst kt) (snd kt)" by fastforce
      qed
      have b: "\<forall>kt \<in> set (pdefaults (p\<lparr>psects := psects p @ [(name, cur)]\<rparr>)).
                 R ''DEFAULT'' (fst kt) (snd kt)"
        using Cons.prems(3) by simp
      from Cons.IH [OF rec a b rest] show ?thesis .
    qed
  qed
qed

lemma traverse_total: "(\<And>x. x \<in> set xs \<Longrightarrow> \<exists>y. f x = Inr y) \<Longrightarrow> \<exists>ys. traverse f xs = Inr ys"
proof (induction xs)
  case Nil
  show ?case by simp
next
  case (Cons x xs)
  from Cons.prems obtain y where "f x = Inr y" by auto
  moreover from Cons have "\<exists>ys. traverse f xs = Inr ys" by auto
  ultimately show ?case by auto
qed

lemma section_opts_succeeds:
  assumes sec: "map_of (psects p) s = Some sec"
    and plain: "\<forall>kt \<in> set (pdefaults p) \<union> set sec. plain_value E (snd kt)"
  shows "\<exists>opts. section_opts E p ov s = Inr (s, opts)"
proof -
  let ?d = "dict_update (pdefaults p) sec"
  have sub: "set ?d \<subseteq> set (pdefaults p) \<union> set sec"
    unfolding dict_update_def
  proof (induction sec arbitrary: p)
    case Nil
    show ?case by simp
  next
    case (Cons kv sec)
    from Cons [of "p\<lparr>pdefaults := AList.update (fst kv) (snd kv) (pdefaults p)\<rparr>"]
      set_update_subset [of "fst kv" "snd kv" "pdefaults p"]
    show ?case by auto
  qed
  have "traverse (interp_item E p s) ?d = Inr (map (\<lambda>kv. kv) ?d)"
  proof (rule traverse_map)
    fix kv assume "kv \<in> set ?d"
    with sub plain have "plain_value E (snd kv)" by blast
    then show "interp_item E p s kv = Inr kv"
      by (simp add: interp_item_def interpolate_def plain_value_def)
  qed
  then have it: "items E p s = Inr ?d"
    using sec by (simp add: items_def)
  have "\<exists>ys. traverse (coerce_item E) ?d = Inr ys"
  proof (rule traverse_total)
    fix kv assume "kv \<in> set ?d"
    with sub plain have "plain_value E (snd kv)" by blast
    then show "\<exists>y. coerce_item E kv = Inr y"
      by (auto simp: coerce_item_def plain_value_def split: sum.splits)
  qed
  then obtain parsed where "traverse (coerce_item E) ?d = Inr parsed" by blast
  with it show ?thesis
    by (simp add: section_opts_def)
qed

lemma init_succeeds:
  assumes rs: "read_string read_defaults data = Inr p"
    and ov: "(case ovl of None \<Rightarrow> Inr [] | Some l \<Rightarrow> parse_overrides E l) = Inr ov"
    and cs: "check_sections (parser_sections p) = Inr ()"
    and plain: "\<forall>nl \<in> set data. \<forall>kt \<in> set (snd nl). plain_value E (snd kt)"
  shows "\<exists>cfg. init_sections E fname data ovl = Inr cfg"
proof -
  have "(\<forall>ns \<in> set (psects p). \<forall>kt \<in> set (snd ns). plain_value E (snd kt)) \<and>
        (\<forall>kt \<in> set (pdefaults p). plain_value E (snd kt))"
  proof (rule read_ini_entries [where R = "\<lambda>n k t. plain_value E t"])
    show "read_ini read_defaults [] [] data = Inr p"
      using rs by (simp add: read_string_def)
    show "\<forall>ns \<in> set (psects read_defaults). \<forall>kt \<in> set (snd ns). plain_value E (snd kt)"
      using default_texts_plain by (simp add: read_defaults_eq)
    show "\<forall>kt \<in> set (pdefaults read_defaults). plain_value E (snd kt)"
      by (simp add: read_defaults_eq)
    show "\<forall>nl \<in> set data. \<forall>kt \<in> set (snd nl). plain_value E (snd kt)"
      by (rule plain)
  qed
  then have all: "\<And>s sec kt. (s, sec) \<in> set (psects p) \<Longrightarrow> kt \<in> set (pdefaults p) \<union> set sec
      \<Longrightarrow> plain_value E (snd kt)"
    by fastforce
  have "\<exists>ys. traverse (section_opts E p ov) (parser_sections p) = Inr ys"
  proof (rule traverse_total)
    fix s assume "s \<in> set (parser_sections p)"
    then obtain sec where sec: "map_of (psects p) s = Some sec"
      by (auto simp: parser_sections_def) (metis map_of_eq_None_iff not_Some_eq image_eqI fst_conv)
    then have "(s, sec) \<in> set (psects p)" by (rule map_of_SomeD)
    with all have "\<forall>kt \<in> set (pdefaults p) \<union> set sec. plain_value E (snd kt)" by blast
    from section_opts_succeeds [OF sec this] show "\<exists>y. section_opts E p ov s = Inr y" by blast
  qed
  with rs ov cs show ?thesis
    by (auto simp: init_sections_def)
qed

lemma known_keys_filter: "filter (\<lambda>k. k \<notin> set K) K = []"
  by (simp add: filter_empty_conv)

lemma load_succeeds:
  assumes rs: "read_string read_defaults data = Inr p"
    and ov: "(case ovl of None \<Rightarrow> Inr [] | Some l \<Rightarrow> parse_overrides E l) = Inr ov"
    and cs: "check_sections (parser_sections p) = Inr ()"
    and plain: "\<forall>nl \<in> set data. \<forall>kt \<in> set (snd nl). plain_value E (snd kt)"
    and kd: "fst ` set (pdefaults p) \<subseteq> set (map fst TRAIN_DEFAULTS)"
    and ks: "\<forall>sec. map_of (psects p) ''train'' = Some sec \<longrightarrow>
               fst ` set sec \<subseteq> set (map fst TRAIN_DEFAULTS)"
    and ko: "case map_of ov ''train'' of None \<Rightarrow> True
             | Some od \<Rightarrow> fst ` set od \<subseteq> set (map fst TRAIN_DEFAULTS)"
  shows "\<exists>cfg. load E fname data ovl = ([], Inr cfg)"
proof -
  from init_succeeds [OF rs ov cs plain] obtain cfg where
    i: "init_sections E fname data ovl = Inr cfg" by blast
  from init_train [OF i] rs ov obtain sec tr where
    sec: "map_of (psects p) ''train'' = Some sec" and
    so: "section_opts E p ov ''train'' = Inr (''train'', tr)" and
    tr: "map_of (psections cfg) ''train'' = Some tr"
    by auto
  from section_opts_keys [OF so sec] kd ks ko sec
  have "fst ` set tr \<subseteq> set (map fst TRAIN_DEFAULTS)"
    by (auto split: option.splits)
  then have "filter (\<lambda>k. k \<notin> set (map fst TRAIN_DEFAULTS)) (map fst tr) = []"
    by (auto simp: filter_empty_conv)
  with load_sanity [OF i tr] show ?thesis by auto
qed

lemmas parser_eval = read_string_def read_defaults_eq lower_def to_lower_def

lemma example_parser:
  "read_string read_defaults example_ini =
     Inr \<lparr>pdefaults = [],
          psects = [(''train'', AList.update ''batch_size'' ''64'' default_texts),
                    (''model'', []),
                    (''tasks.a'', [(''x'', ''1'')]),
                    (''tasks.b'', [(''y'', ''2'')])]\<rparr>"
  by (simp add: example_ini_def parser_eval)

lemma example_check:
  "check_sections [''train'', ''model'', ''tasks.a'', ''tasks.b''] = Inr ()"
  by (simp add: check_sections_def startswith_def)

lemma example_plain: "\<forall>nl \<in> set example_ini. \<forall>kt \<in> set (snd nl). plain_value E (snd kt)"
  by (simp add: example_ini_def plain_value_def parse_value_def string_defs literal_defs)

lemma batch_size_known: "''batch_size'' \<in> fst ` set TRAIN_DEFAULTS"
  by (simp add: TRAIN_DEFAULTS_def)

lemma default_texts_dom: "fst ` set default_texts = fst ` set TRAIN_DEFAULTS"
  using default_texts_keys by (metis list.set_map)

lemma example_override:
  "parse_overrides E [''train.batch_size:128''] = Inr [(''train'', [(''batch_size'', PInt 128)])]"
  by (simp add: override_defs string_defs literal_defs)

lemma example_loads:
  "\<exists>cfg. load E fname example_ini (Some [''train.batch_size:128'']) = ([], Inr cfg)"
proof (rule load_succeeds [OF example_parser _ _ example_plain])
  show "(case Some [''train.batch_size:128''] of None \<Rightarrow> Inr [] | Some l \<Rightarrow> parse_overrides E l)
      = Inr [(''train'', [(''batch_size'', PInt 128)])]"
    by (simp add: example_override)
qed (simp_all add: parser_sections_def example_check dom_update default_texts_dom
       batch_size_known)

text \<open>
  C1. An override entry for \<open>[train]\<close> and a key decides the resolved value of that key,
  whatever the file and the defaults table say: if the load succeeds and no later entry of
  the list names the same section and key, \<open>config.train[key]\<close> is the value text of the
  entry, path-resolved and coerced.
\<close>

theorem override_wins:
  assumes "load E fname data (Some (l1 @ opt # l2)) = (out, Inr cfg)"
    and "override_section opt = ''train''"
    and "\<forall>x \<in> set l2. \<not> (override_section x = ''train'' \<and> override_key x = override_key opt)"
  shows "\<exists>r v tr. resolve_path_str E (override_text opt) = Inr r \<and> parse_value E r = Inr v \<and>
           map_of (psections cfg) ''train'' = Some tr \<and>
           map_of tr (override_key opt) = Some v"
proof -
  from load_InrD [OF assms(1)] have i: "init_sections E fname data (Some (l1 @ opt # l2)) = Inr cfg" .
  from init_train [OF i] obtain p ov tr where
    ov: "parse_overrides E (l1 @ opt # l2) = Inr ov" and
    so: "section_opts E p ov ''train'' = Inr (''train'', tr)" and
    tr: "map_of (psections cfg) ''train'' = Some tr"
    by auto
  from ov have "parse_overrides_from E [] (l1 @ opt # l2) = Inr ov"
    by (simp add: parse_overrides_def)
  from parse_overrides_from_last_wins [OF this] assms(2,3) obtain r v where
    v: "resolve_path_str E (override_text opt) = Inr r" "parse_value E r = Inr v" and
    "override_lookup ov ''train'' (override_key opt) = Some v"
    by auto
  then obtain od where od: "map_of ov ''train'' = Some od" "map_of od (override_key opt) = Some v"
    by (auto simp: override_lookup_def split: option.splits)
  from parse_overrides_ok [OF ov] od(1) have "distinct (map fst od)"
    by (auto simp: overrides_ok_def list_all_iff dest: map_of_SomeD)
  from section_opts_override [OF so od(1) this od(2)] v tr show ?thesis by blast
qed

theorem override_wins_witness:
  "\<exists>cfg tr. load plain_env ''exp.conf'' example_ini (Some [''train.batch_size:128'']) = ([], Inr cfg) \<and>
     map_of (psections cfg) ''train'' = Some tr \<and>
     map_of tr ''batch_size'' = Some (PInt 128)"
proof -
  from example_loads obtain cfg where
    l: "load plain_env ''exp.conf'' example_ini (Some ([] @ ''train.batch_size:128'' # [])) = ([], Inr cfg)"
    by auto
  have s: "override_section ''train.batch_size:128'' = ''train''"
    by (simp add: override_section_def)
  have k: "override_key ''train.batch_size:128'' = ''batch_size''"
    by (simp add: override_key_def override_keyvalue_def)
  have r: "resolve_path_str plain_env (override_text ''train.batch_size:128'') = Inr (Text ''128'')"
    by (simp add: override_text_def override_keyvalue_def override_defs string_defs)
  have t: "parse_value plain_env (Text ''128'') = Inr (PInt 128)"
    by (simp add: override_defs string_defs literal_defs)
  from override_wins [OF l s] k r t l show ?thesis by auto
qed

text \<open>
  C5. A key of the defaults table that the \<open>[train]\<close> section of the file does not set and
  that no override names is resolved to its default: the default is stored as text by
  \<open>read_dict\<close>, and reading it back through \<open>_parse_value\<close> and \<open>resolve_path\<close> gives
  the same value.
\<close>

theorem default_applies:
  assumes "load E fname data ovl = (out, Inr cfg)"
    and "(k, d) \<in> set TRAIN_DEFAULTS"
    and "\<forall>nl \<in> set data. fst nl = ''train'' \<longrightarrow> k \<notin> lower ` fst ` set (snd nl)"
    and "\<forall>l. ovl = Some l \<longrightarrow>
           (\<forall>x \<in> set l. \<not> (override_section x = ''train'' \<and> override_key x = k))"
  shows "\<exists>tr. map_of (psections cfg) ''train'' = Some tr \<and> map_of tr k = Some (scalar_val d)"
proof -
  from load_InrD [OF assms(1)] have i: "init_sections E fname data ovl = Inr cfg" .
  from init_train [OF i] obtain p ov sec tr where
    rs: "read_string read_defaults data = Inr p" and ok: "parser_ok p" and
    ov: "(case ovl of None \<Rightarrow> Inr [] | Some l \<Rightarrow> parse_overrides E l) = Inr ov" and
    sec: "map_of (psects p) ''train'' = Some sec" and
    so: "section_opts E p ov ''train'' = Inr (''train'', tr)" and
    tr: "map_of (psections cfg) ''train'' = Some tr"
    by auto
  from assms(2) have "(k, scalar_str d) \<in> set default_texts"
    by (force simp: default_texts_def)
  moreover have "distinct (map fst default_texts)"
    by (simp add: default_texts_keys defaults_distinct)
  ultimately have dt: "map_of default_texts k = Some (scalar_str d)"
    by (simp add: map_of_is_SomeI)
  from rs have "read_ini read_defaults [] [] data = Inr p" by (simp add: read_string_def)
  from read_ini_train [OF this _ dt assms(3)] sec
  have st: "map_of sec k = Some (scalar_str d)"
    by (simp add: read_defaults_eq)
  from default_roundtrip [of E] assms(2) have
    rt: "parse_value E (Text (scalar_str d)) = Inr (scalar_val d)"
        "resolve_path E (scalar_val d) = Inr (scalar_val d)"
        "CHR ''$'' \<notin> set (scalar_str d)"
    by (auto simp: list_all_iff)
  have nolook: "override_lookup ov ''train'' k = None"
  proof (cases ovl)
    case None
    with ov show ?thesis by (simp add: override_lookup_def)
  next
    case (Some l)
    with ov have "parse_overrides_from E [] l = Inr ov" by (simp add: parse_overrides_def)
    from parse_overrides_from_untouched [OF this] assms(4) Some show ?thesis
      by (simp add: override_lookup_def)
  qed
  have no: "case map_of ov ''train'' of None \<Rightarrow> True | Some od \<Rightarrow> k \<notin> fst ` set od"
  proof (cases "map_of ov ''train''")
    case None
    then show ?thesis by simp
  next
    case (Some od)
    with nolook have "map_of od k = None" by (simp add: override_lookup_def)
    then have "k \<notin> fst ` set od" by (simp add: map_of_eq_None_iff)
    with Some show ?thesis by simp
  qed
  from section_opts_file [OF so ok sec st rt(3) no] rt tr show ?thesis by auto
qed

theorem default_applies_witness:
  "\<exists>cfg tr. load plain_env ''exp.conf'' example_ini (Some [''train.batch_size:128'']) = ([], Inr cfg) \<and>
     (''lr'', SFloat ''0.0004'') \<in> set TRAIN_DEFAULTS \<and>
     map_of (psections cfg) ''train'' = Some tr \<and>
     map_of tr ''lr'' = Some (PFloat ''0.0004'')"
proof -
  from example_loads obtain cfg where
    l: "load plain_env ''exp.conf'' example_ini (Some [''train.batch_size:128'']) = ([], Inr cfg)"
    by auto
  have d: "(''lr'', SFloat ''0.0004'') \<in> set TRAIN_DEFAULTS"
    by (simp add: TRAIN_DEFAULTS_def)
  have f: "\<forall>nl \<in> set example_ini. fst nl = ''train'' \<longrightarrow> ''lr'' \<notin> lower ` fst ` set (snd nl)"
    by (simp add: example_ini_def lower_def to_lower_def)
  have o: "\<forall>l. Some [''train.batch_size:128''] = Some l \<longrightarrow>
      (\<forall>x \<in> set l. \<not> (override_section x = ''train'' \<and> override_key x = ''lr''))"
    by (simp add: override_key_def override_keyvalue_def)
  from default_applies [OF l d f o] l d show ?thesis by auto
qed

lemma singleton_list: "distinct xs \<Longrightarrow> set xs = {a} \<Longrightarrow> xs = [a]"
proof -
  assume d: "distinct xs" and s: "set xs = {a}"
  from d have "length xs = card (set xs)" by (simp add: distinct_card)
  with s have "length xs = 1" by simp
  then obtain b where "xs = [b]" by (cases xs) auto
  with s show ?thesis by simp
qed

lemma single_unknown:
  assumes "distinct (map fst tr)" "fst ` set tr = insert k K" "k \<notin> K"
  shows "filter (\<lambda>x. x \<notin> K) (map fst tr) = [k]"
proof (rule singleton_list)
  show "distinct (filter (\<lambda>x. x \<notin> K) (map fst tr))" using assms(1) by simp
  show "set (filter (\<lambda>x. x \<notin> K) (map fst tr)) = {k}" using assms(2,3) by auto
qed

text \<open>A file with one unknown key \<open>k\<close> in \<open>[train]\<close> and an empty \<open>[model]\<close>.\<close>

lemma one_unknown_parser:
  "read_string read_defaults [(''train'', [(k, t)]), (''model'', [])] =
     Inr \<lparr>pdefaults = [],
          psects = [(''train'', AList.update (lower k) t default_texts), (''model'', [])]\<rparr>"
  by (simp add: read_string_def read_defaults_eq)

lemma two_sections_check: "check_sections [''train'', ''model''] = Inr ()"
  by (simp add: check_sections_def)

lemma one_unknown_load:
  assumes pv: "plain_value E t" and unk: "lower k \<notin> fst ` set TRAIN_DEFAULTS"
  shows "\<exists>cfg tr. init_sections E fname [(''train'', [(k, t)]), (''model'', [])] None = Inr cfg \<and>
           map_of (psections cfg) ''train'' = Some tr \<and>
           filter (\<lambda>x. x \<notin> set (map fst TRAIN_DEFAULTS)) (map fst tr) = [lower k] \<and>
           load E fname [(''train'', [(k, t)]), (''model'', [])] None =
             ([unknown_msg E fname (lower k)], Inl (SystemExit 1))"
proof -
  let ?data = "[(''train'', [(k, t)]), (''model'', [])]"
  have "\<exists>cfg. init_sections E fname ?data None = Inr cfg"
    by (rule init_succeeds [OF one_unknown_parser, where ov = "[]"])
       (simp_all add: parser_sections_def two_sections_check pv)
  then obtain cfg where i: "init_sections E fname ?data None = Inr cfg" by blast
  from init_train [OF i] obtain sec tr where
    sec: "sec = AList.update (lower k) t default_texts" and
    so: "section_opts E \<lparr>pdefaults = [], psects = [(''train'', sec), (''model'', [])]\<rparr> []
           ''train'' = Inr (''train'', tr)" and
    tr: "map_of (psections cfg) ''train'' = Some tr" and d: "distinct (map fst tr)"
    by (auto simp: one_unknown_parser)
  from section_opts_keys [OF so] have "fst ` set tr = insert (lower k) (fst ` set TRAIN_DEFAULTS)"
    by (simp add: sec dom_update default_texts_dom)
  from single_unknown [OF d this unk]
  have f: "filter (\<lambda>x. x \<notin> set (map fst TRAIN_DEFAULTS)) (map fst tr) = [lower k]" by simp
  with load_sanity [OF i tr] i tr show ?thesis by simp
qed

lemma foo_unknown: "lower ''foo'' \<notin> fst ` set TRAIN_DEFAULTS"
  by (simp add: TRAIN_DEFAULTS_def lower_def to_lower_def)

lemma lr_decya_unknown: "lower ''lr_decya'' \<notin> fst ` set TRAIN_DEFAULTS"
  by (simp add: TRAIN_DEFAULTS_def lower_def to_lower_def)

lemma plain_one: "plain_value E ''1''"
  by (simp add: plain_value_def parse_value_def string_defs literal_defs)

lemma plain_plateau: "plain_value E ''plateau''"
  by (simp add: plain_value_def parse_value_def is_pathlike_def string_defs literal_defs)

lemma example_loads_plain: "\<exists>cfg. load E fname example_ini None = ([], Inr cfg)"
  by (rule load_succeeds [OF example_parser _ _ example_plain, where ov = "[]"])
     (simp_all add: parser_sections_def example_check dom_update default_texts_dom
       batch_size_known)

text \<open>
  C6. Once the sections are built, the sanity check of \<open>[train]\<close> prints one message for
  every key of the section that is not in the defaults table, each naming the file and
  the key and, when \<open>get_close_matches\<close> finds one, the suggested key; then it exits
  with status 1. With no such key it prints nothing and the load returns the object.
\<close>

theorem unknown_keys_exit:
  assumes "init_sections E fname data ovl = Inr cfg"
  shows "\<exists>tr. map_of (psections cfg) ''train'' = Some tr \<and>
           (let unknown = filter (\<lambda>k. k \<notin> set (map fst TRAIN_DEFAULTS)) (map fst tr);
                out = fst (load E fname data ovl)
            in set out = unknown_msg E fname ` set unknown \<and>
               length out = length unknown \<and>
               snd (load E fname data ovl) =
                 (if unknown = [] then Inr cfg else Inl (SystemExit 1))) \<and>
           (\<forall>k. unknown_msg E fname k =
                  fname @ '':train: Unknown option '' @ [CHR 0x27] @ k @ [CHR 0x27] @ ''.'' @
                  (case close_matches E k (map fst TRAIN_DEFAULTS) of
                     [] \<Rightarrow> []
                   | m # ms \<Rightarrow> ''  Did you mean '' @ [CHR 0x27] @ m @ [CHR 0x27] @ '' ?''))"
proof -
  from init_train [OF assms] obtain tr where
    tr: "map_of (psections cfg) ''train'' = Some tr" by blast
  from load_sanity [OF assms tr] tr show ?thesis
    by (auto simp: Let_def unknown_msg_def)
qed

theorem unknown_keys_exit_witness:
  "(\<exists>cfg tr. init_sections typo_env ''exp.conf'' typo_ini None = Inr cfg \<and>
      map_of (psections cfg) ''train'' = Some tr \<and>
      filter (\<lambda>k. k \<notin> set (map fst TRAIN_DEFAULTS)) (map fst tr) = [''lr_decya'']) \<and>
   load typo_env ''exp.conf'' typo_ini None =
     ([''exp.conf:train: Unknown option '' @ [CHR 0x27] @ ''lr_decya'' @ [CHR 0x27] @
       ''.  Did you mean '' @ [CHR 0x27] @ ''lr_decay'' @ [CHR 0x27] @ '' ?''],
      Inl (SystemExit 1)) \<and>
   (\<exists>cfg. init_sections plain_env ''exp.conf'' example_ini None = Inr cfg \<and>
      load plain_env ''exp.conf'' example_ini None = ([], Inr cfg))"
proof -
  have lw: "lower ''lr_decya'' = ''lr_decya''" by (simp add: lower_def to_lower_def)
  let ?L = "load typo_env ''exp.conf'' typo_ini None"
  let ?msg = "unknown_msg typo_env ''exp.conf'' ''lr_decya''"
  from one_unknown_load [OF plain_plateau lr_decya_unknown, of typo_env "''exp.conf''"]
  obtain cfg tr where
    i: "init_sections typo_env ''exp.conf'' typo_ini None = Inr cfg" and
    tr: "map_of (psections cfg) ''train'' = Some tr" and
    f: "filter (\<lambda>k. k \<notin> set (map fst TRAIN_DEFAULTS)) (map fst tr) = [''lr_decya'']"
    by (auto simp: typo_ini_def lw)
  from unknown_keys_exit [OF i, unfolded Let_def] obtain tr' where
    tr': "map_of (psections cfg) ''train'' = Some tr'" and
    a1: "set (fst ?L) = unknown_msg typo_env ''exp.conf'' `
           set (filter (\<lambda>k. k \<notin> set (map fst TRAIN_DEFAULTS)) (map fst tr'))" and
    a2: "length (fst ?L) = length (filter (\<lambda>k. k \<notin> set (map fst TRAIN_DEFAULTS)) (map fst tr'))" and
    a3: "snd ?L = (if filter (\<lambda>k. k \<notin> set (map fst TRAIN_DEFAULTS)) (map fst tr') = []
                   then Inr cfg else Inl (SystemExit 1))" and
    a4: "\<forall>k. unknown_msg typo_env ''exp.conf'' k =
           ''exp.conf'' @ '':train: Unknown option '' @ [CHR 0x27] @ k @ [CHR 0x27] @ ''.'' @
           (case close_matches typo_env k (map fst TRAIN_DEFAULTS) of
              [] \<Rightarrow> []
            | m # ms \<Rightarrow> ''  Did you mean '' @ [CHR 0x27] @ m @ [CHR 0x27] @ '' ?'')"
    by blast
  from tr tr' have same: "tr' = tr" by simp
  have out: "set (fst ?L) = {?msg}" "length (fst ?L) = 1"
    unfolding a1 a2 same f by simp_all
  have res: "snd ?L = Inl (SystemExit 1)"
    unfolding a3 same f by simp
  from a4 [rule_format, of "''lr_decya''"]
  have m: "?msg = ''exp.conf:train: Unknown option '' @ [CHR 0x27] @ ''lr_decya'' @ [CHR 0x27] @
          ''.  Did you mean '' @ [CHR 0x27] @ ''lr_decay'' @ [CHR 0x27] @ '' ?''"
    by (simp add: typo_env_def plain_env_def)
  from out have "fst ?L = [?msg]" by (cases "fst ?L") auto
  with res have l: "?L = ([?msg], Inl (SystemExit 1))" by (metis prod.collapse)
  from example_loads_plain obtain cfg2 where
    l2: "load plain_env ''exp.conf'' example_ini None = ([], Inr cfg2)" by blast
  from load_InrD [OF l2] have i2: "init_sections plain_env ''exp.conf'' example_ini None = Inr cfg2" .
  from i tr f l m i2 l2 show ?thesis by auto
qed

lemma bad_section_fails:
  assumes "name \<in> fst ` set data" "name \<noteq> ''train''" "name \<noteq> ''model''" "name \<noteq> ''DEFAULT''"
    and "\<not> startswith name ''tasks.''"
  shows "\<exists>e. load E fname data ovl = ([], Inl e)"
proof (cases "init_sections E fname data ovl")
  case (Inl e)
  then show ?thesis by (simp add: load_def)
next
  case (Inr cfg)
  from init_sectionsD [OF Inr] obtain p where
    rs: "read_string read_defaults data = Inr p" and
    cs: "check_sections (parser_sections p) = Inr ()"
    by blast
  from rs read_defaults_ok have "set (map fst (psects p)) =
      set (map fst (psects read_defaults)) \<union> (fst ` set data - {''DEFAULT''})"
    using read_ini_ok by (auto simp: read_string_def)
  with assms(1,4) have "name \<in> set (parser_sections p)"
    by (simp add: parser_sections_def)
  from check_sectionsD(3) [OF cs this] assms(2,3,5) show ?thesis by simp
qed

lemma three_sections_fail:
  "load E fname [(''train'', [(''batch_size'', ''1'')]), (''model'', []), (''other'', [])] None =
     ([], Inl (AssertionError
        ''Configuration file should include train, model and tasks.* sections.''))"
  by (simp add: load_def init_sections_def read_string_def read_defaults_eq parser_sections_def
      check_sections_def startswith_def lower_def to_lower_def)

lemma check_sectionsI:
  assumes d: "distinct secs" and t: "''train'' \<in> set secs" and m: "''model'' \<in> set secs"
    and names: "\<forall>s \<in> set secs. s = ''train'' \<or> s = ''model'' \<or> startswith s ''tasks.''"
    and dots: "\<forall>s \<in> set secs. count_list s CHR ''.'' < 2"
  shows "check_sections secs = Inr ()"
proof -
  from m have m': "''model'' \<in> set (remove1 ''train'' secs)" by simp
  from d have "set (remove1 ''model'' (remove1 ''train'' secs)) = set secs - {''train'', ''model''}"
    by (auto simp: set_remove1_eq)
  with names have all: "list_all (\<lambda>s. startswith s ''tasks.'') (remove1 ''model'' (remove1 ''train'' secs))"
    by (auto simp: list_all_iff)
  from t obtain n ns where mp: "map (\<lambda>s. count_list s CHR ''.'') secs = n # ns"
    by (cases secs) auto
  from dots have "\<forall>x \<in> set (map (\<lambda>s. count_list s CHR ''.'') secs). x < 2" by simp
  then have "\<forall>x \<in> set (n # ns). x < 2" by (simp only: mp)
  then have fm: "fold max ns n < 2" by (simp add: fold_max_less)
  from t m' all fm show ?thesis
    by (simp add: check_sections_def mp)
qed

lemma known_file_loads:
  assumes rs: "read_string read_defaults data = Inr p"
    and m: "''model'' \<in> fst ` set data"
    and names: "\<forall>nl \<in> set data. fst nl = ''train'' \<or> fst nl = ''model'' \<or>
                  (startswith (fst nl) ''tasks.'' \<and> count_list (fst nl) CHR ''.'' < 2)"
    and plain: "\<forall>nl \<in> set data. \<forall>kt \<in> set (snd nl). plain_value E (snd kt)"
    and keys: "\<forall>nl \<in> set data. \<forall>kt \<in> set (snd nl).
                 fst nl = ''train'' \<longrightarrow> lower (fst kt) \<in> fst ` set TRAIN_DEFAULTS"
  shows "\<exists>cfg. load E fname data None = ([], Inr cfg)"
proof -
  from rs have ri: "read_ini read_defaults [] [] data = Inr p" by (simp add: read_string_def)
  from read_ini_ok [OF ri read_defaults_ok] have ok: "parser_ok p" and
    secs: "set (map fst (psects p)) = insert ''train'' (fst ` set data - {''DEFAULT''})"
    by (simp_all add: read_defaults_eq)
  have nd: "fst nl \<noteq> ''DEFAULT''" if "nl \<in> set data" for nl
    using names that by (auto simp: startswith_def)
  have cs: "check_sections (parser_sections p) = Inr ()"
  proof (rule check_sectionsI)
    show "distinct (parser_sections p)"
      using ok by (simp add: parser_ok_def parser_sections_def)
    show "''train'' \<in> set (parser_sections p)"
      using secs by (simp add: parser_sections_def)
    show "''model'' \<in> set (parser_sections p)"
      using secs m by (simp add: parser_sections_def)
    show "\<forall>s \<in> set (parser_sections p). s = ''train'' \<or> s = ''model'' \<or> startswith s ''tasks.''"
      using secs names by (auto simp: parser_sections_def)
    show "\<forall>s \<in> set (parser_sections p). count_list s CHR ''.'' < 2"
    proof
      fix s assume "s \<in> set (parser_sections p)"
      with secs have "s = ''train'' \<or> s \<in> fst ` set data" by (auto simp: parser_sections_def)
      then show "count_list s CHR ''.'' < 2"
      proof
        assume "s = ''train''"
        then show ?thesis by simp
      next
        assume "s \<in> fst ` set data"
        then obtain nl where nl: "nl \<in> set data" "s = fst nl" by auto
        from names nl(1) have "fst nl = ''train'' \<or> fst nl = ''model'' \<or> count_list (fst nl) CHR ''.'' < 2"
          by blast
        then show ?thesis unfolding nl(2) by (elim disjE) simp_all
      qed
    qed
  qed
  have ent: "(\<forall>ns \<in> set (psects p). \<forall>kt \<in> set (snd ns).
                (fst ns = ''train'' \<or> fst ns = ''DEFAULT'') \<longrightarrow> fst kt \<in> fst ` set TRAIN_DEFAULTS) \<and>
             (\<forall>kt \<in> set (pdefaults p).
                (''DEFAULT'' = ''train'' \<or> ''DEFAULT'' = ''DEFAULT'') \<longrightarrow> fst kt \<in> fst ` set TRAIN_DEFAULTS)"
  proof (rule read_ini_entries
      [where R = "\<lambda>n k t. (n = ''train'' \<or> n = ''DEFAULT'') \<longrightarrow> k \<in> fst ` set TRAIN_DEFAULTS"])
    show "read_ini read_defaults [] [] data = Inr p" by (rule ri)
    show "\<forall>ns \<in> set (psects read_defaults). \<forall>kt \<in> set (snd ns).
        (fst ns = ''train'' \<or> fst ns = ''DEFAULT'') \<longrightarrow> fst kt \<in> fst ` set TRAIN_DEFAULTS"
      using default_texts_dom by (auto simp: read_defaults_eq)
    show "\<forall>kt \<in> set (pdefaults read_defaults).
        (''DEFAULT'' = ''train'' \<or> ''DEFAULT'' = ''DEFAULT'') \<longrightarrow> fst kt \<in> fst ` set TRAIN_DEFAULTS"
      by (simp add: read_defaults_eq)
    show "\<forall>nl \<in> set data. \<forall>kt \<in> set (snd nl).
        (fst nl = ''train'' \<or> fst nl = ''DEFAULT'') \<longrightarrow> lower (fst kt) \<in> fst ` set TRAIN_DEFAULTS"
      using keys nd by blast
  qed
  from ent have kd: "fst ` set (pdefaults p) \<subseteq> set (map fst TRAIN_DEFAULTS)"
    by auto
  have ks: "\<forall>sec. map_of (psects p) ''train'' = Some sec \<longrightarrow>
      fst ` set sec \<subseteq> set (map fst TRAIN_DEFAULTS)"
  proof (intro allI impI subsetI)
    fix sec k assume "map_of (psects p) ''train'' = Some sec" and k: "k \<in> fst ` set sec"
    then have "(''train'', sec) \<in> set (psects p)" by (simp add: map_of_SomeD)
    moreover from k obtain kt where "kt \<in> set sec" "k = fst kt" by auto
    ultimately show "k \<in> set (map fst TRAIN_DEFAULTS)"
      using ent by fastforce
  qed
  show ?thesis
    by (rule load_succeeds [OF rs _ cs plain kd ks, where ov = "[]"]) simp_all
qed

lemma foo_load:
  "load E fname [(''train'', [(''foo'', ''1'')]), (''model'', [])] None =
     ([unknown_msg E fname ''foo''], Inl (SystemExit 1))"
proof -
  have lw: "lower ''foo'' = ''foo''" by (simp add: lower_def to_lower_def)
  from one_unknown_load [OF plain_one foo_unknown, of E fname] show ?thesis
    by (auto simp: lw)
qed

text \<open>
  C7, counterexample. The claim has the file with \<open>foo=1\<close> in \<open>[train]\<close> and a \<open>[model]\<close>
  section load successfully. \<open>foo\<close> is not a key of the defaults table: the sanity check
  prints its message and exits with status 1.
\<close>

theorem foo_file_exits:
  "load plain_env ''exp.conf'' [(''train'', [(''foo'', ''1'')]), (''model'', [])] None =
     ([''exp.conf:train: Unknown option '' @ [CHR 0x27] @ ''foo'' @ [CHR 0x27] @ ''.''],
      Inl (SystemExit 1))"
  by (simp add: foo_load unknown_msg_def plain_env_def)

text \<open>
  C7, amended. \<open>tasks.*\<close> sections are optional: a file loads, without overrides, when the
  parser accepts it (no section and no option is repeated), it has a \<open>[model]\<close> section,
  each of its sections is \<open>train\<close>, \<open>model\<close> or a name that starts with \<open>tasks.\<close> and has no
  second dot, the keys of \<open>[train]\<close> are, lower-cased, keys of the defaults table, and
  every value has no \<open>$\<close> and is accepted by coercion and path resolution. With \<open>foo=1\<close>
  in \<open>[train]\<close> the load prints the message for \<open>foo\<close> and exits with status 1. Any file
  with a section that is not \<open>train\<close>, \<open>model\<close> or \<open>DEFAULT\<close> and does not start with
  \<open>tasks.\<close> fails, whatever else it holds.
\<close>

theorem section_names_checked:
  "(\<forall>data p.
      read_string read_defaults data = Inr p \<and> ''model'' \<in> fst ` set data \<and>
      (\<forall>nl \<in> set data.
         (fst nl = ''train'' \<or> fst nl = ''model'' \<or>
          (startswith (fst nl) ''tasks.'' \<and> count_list (fst nl) CHR ''.'' < 2)) \<and>
         (\<forall>kt \<in> set (snd nl).
            plain_value E (snd kt) \<and>
            (fst nl = ''train'' \<longrightarrow> lower (fst kt) \<in> fst ` set TRAIN_DEFAULTS))) \<longrightarrow>
      (\<exists>cfg. load E fname data None = ([], Inr cfg))) \<and>
   load E fname [(''train'', [(''foo'', ''1'')]), (''model'', [])] None
     = ([unknown_msg E fname ''foo''], Inl (SystemExit 1)) \<and>
   (\<forall>data ovl name.
      name \<in> fst ` set data \<and> name \<notin> {''train'', ''model'', ''DEFAULT''} \<and>
      \<not> startswith name ''tasks.'' \<longrightarrow>
      (\<exists>e. load E fname data ovl = ([], Inl e)))"
proof (intro conjI allI impI)
  fix data :: ini and p :: parser
  assume h: "read_string read_defaults data = Inr p \<and> ''model'' \<in> fst ` set data \<and>
      (\<forall>nl \<in> set data.
         (fst nl = ''train'' \<or> fst nl = ''model'' \<or>
          (startswith (fst nl) ''tasks.'' \<and> count_list (fst nl) CHR ''.'' < 2)) \<and>
         (\<forall>kt \<in> set (snd nl).
            plain_value E (snd kt) \<and>
            (fst nl = ''train'' \<longrightarrow> lower (fst kt) \<in> fst ` set TRAIN_DEFAULTS)))"
  show "\<exists>cfg. load E fname data None = ([], Inr cfg)"
  proof (rule known_file_loads)
    from h show "read_string read_defaults data = Inr p" by blast
    from h show "''model'' \<in> fst ` set data" by blast
    from h show "\<forall>nl \<in> set data. fst nl = ''train'' \<or> fst nl = ''model'' \<or>
                  (startswith (fst nl) ''tasks.'' \<and> count_list (fst nl) CHR ''.'' < 2)"
      by blast
    from h show "\<forall>nl \<in> set data. \<forall>kt \<in> set (snd nl). plain_value E (snd kt)" by blast
    from h show "\<forall>nl \<in> set data. \<forall>kt \<in> set (snd nl).
                 fst nl = ''train'' \<longrightarrow> lower (fst kt) \<in> fst ` set TRAIN_DEFAULTS"
      by blast
  qed
next
  show "load E fname [(''train'', [(''foo'', ''1'')]), (''model'', [])] None
     = ([unknown_msg E fname ''foo''], Inl (SystemExit 1))"
    by (rule foo_load)
next
  fix data :: ini and ovl :: "string list option" and name :: string
  assume "name \<in> fst ` set data \<and> name \<notin> {''train'', ''model'', ''DEFAULT''} \<and>
      \<not> startswith name ''tasks.''"
  then show "\<exists>e. load E fname data ovl = ([], Inl e)"
    by (intro bad_section_fails [of name]) simp_all
qed

theorem section_names_checked_witness:
  "read_string read_defaults [(''train'', [(''batch_size'', ''1'')]), (''model'', [])] =
     Inr \<lparr>pdefaults = [],
          psects = [(''train'', AList.update ''batch_size'' ''1'' default_texts), (''model'', [])]\<rparr> \<and>
   (\<exists>cfg. load plain_env ''exp.conf'' [(''train'', [(''batch_size'', ''1'')]), (''model'', [])] None
            = ([], Inr cfg)) \<and>
   ''other'' \<in> fst ` set [(''train'', [(''batch_size'', ''1'')]), (''model'', []), (''other'', [])] \<and>
   ''other'' \<notin> {''train'', ''model'', ''DEFAULT''} \<and>
   \<not> startswith ''other'' ''tasks.'' \<and>
   (\<exists>e. load plain_env ''exp.conf''
          [(''train'', [(''batch_size'', ''1'')]), (''model'', []), (''other'', [])] None
        = ([], Inl e)) \<and>
   load plain_env ''exp.conf''
     [(''train'', [(''batch_size'', ''1'')]), (''model'', []), (''other'', [])] None
     = ([], Inl (AssertionError
         ''Configuration file should include train, model and tasks.* sections.''))"
proof -
  let ?data = "[(''train'', [(''batch_size'', ''1'')]), (''model'', [])]"
  let ?p = "\<lparr>pdefaults = [],
          psects = [(''train'', AList.update ''batch_size'' ''1'' default_texts), (''model'', [])]\<rparr>"
  have lw: "lower ''batch_size'' = ''batch_size''" by (simp add: lower_def to_lower_def)
  have rs: "read_string read_defaults ?data = Inr ?p"
    using one_unknown_parser [of "''batch_size''" "''1''"] by (simp only: lw)
  have m: "''model'' \<in> fst ` set ?data" by simp
  have h: "\<forall>nl \<in> set ?data.
         (fst nl = ''train'' \<or> fst nl = ''model'' \<or>
          (startswith (fst nl) ''tasks.'' \<and> count_list (fst nl) CHR ''.'' < 2)) \<and>
         (\<forall>kt \<in> set (snd nl).
            plain_value plain_env (snd kt) \<and>
            (fst nl = ''train'' \<longrightarrow> lower (fst kt) \<in> fst ` set TRAIN_DEFAULTS))"
    using batch_size_known by (simp add: plain_one lw)
  have a: "''other'' \<in> fst ` set [(''train'', [(''batch_size'', ''1'')]), (''model'', []), (''other'', [])]"
    by simp
  have b: "''other'' \<notin> {''train'', ''model'', ''DEFAULT''}" by simp
  have c: "\<not> startswith ''other'' ''tasks.''" by (simp add: startswith_def)
  note sn = section_names_checked [of plain_env "''exp.conf''"]
  from sn [THEN conjunct1, rule_format, of ?data ?p, OF conjI [OF rs conjI [OF m h]]]
  have 1: "\<exists>cfg. load plain_env ''exp.conf'' ?data None = ([], Inr cfg)" .
  from sn [THEN conjunct2, THEN conjunct2, rule_format, of "''other''" _ None,
      OF conjI [OF a conjI [OF b c]]]
  have 2: "\<exists>e. load plain_env ''exp.conf''
          [(''train'', [(''batch_size'', ''1'')]), (''model'', []), (''other'', [])] None
        = ([], Inl e)" .
  from rs 1 2 a b c three_sections_fail [of plain_env "''exp.conf''"] show ?thesis
    by (intro conjI) assumption+
qed

section \<open>Hierarchical lookup\<close>

lemma split_on_prefix: "c \<notin> set a \<Longrightarrow> split_on c (a @ c # b) = a # split_on c b"
  by (induction a) auto

lemma last_part:
  assumes "startswith name (key @ ''.'')" "count_list name CHR ''.'' < 2"
  shows "last (split_on CHR ''.'' name) = drop (Suc (length key)) name"
proof -
  let ?rest = "drop (Suc (length key)) name"
  from assms(1) have "take (Suc (length key)) name = key @ ''.''"
    by (simp add: startswith_def)
  then have name: "name = key @ CHR ''.'' # ?rest"
    by (metis append_take_drop_id append_Cons append_Nil append_assoc)
  with assms(2) have "count_list (key @ CHR ''.'' # ?rest) CHR ''.'' < 2" by simp
  then have "count_list key CHR ''.'' = 0" "count_list ?rest CHR ''.'' = 0"
    by simp_all
  then have "CHR ''.'' \<notin> set key" "CHR ''.'' \<notin> set ?rest"
    by (simp_all add: count_list_0_iff)
  then have "split_on CHR ''.'' (key @ CHR ''.'' # ?rest) = [key, ?rest]"
    by (simp add: split_on_prefix split_on_absent)
  with name show ?thesis by (metis last.simps list.distinct(1))
qed

lemma getitem_children:
  assumes d: "distinct (map fst ps)"
    and dots: "\<forall>kv \<in> set ps. count_list (fst kv) CHR ''.'' < 2"
    and none: "map_of ps key = None"
  shows "getitem ps key =
           Children (map (\<lambda>kv. (drop (Suc (length key)) (fst kv), snd kv))
                      (filter (\<lambda>kv. startswith (fst kv) (key @ ''.'')) ps))"
proof -
  let ?sel = "filter (\<lambda>kv. startswith (fst kv) (key @ ''.'')) ps"
  let ?n = "Suc (length key)"
  have eq: "map (\<lambda>kv. (last (split_on CHR ''.'' (fst kv)), snd kv)) ?sel
      = map (\<lambda>kv. (drop ?n (fst kv), snd kv)) ?sel"
    using dots by (auto simp: last_part)
  have inj: "inj_on (drop ?n) (set (map fst ?sel))"
  proof (rule inj_onI)
    fix x y assume x: "x \<in> set (map fst ?sel)" and y: "y \<in> set (map fst ?sel)"
      and e: "drop ?n x = drop ?n y"
    from x y have "take ?n x = key @ ''.''" "take ?n y = key @ ''.''"
      by (auto simp: startswith_def)
    with e show "x = y" by (metis append_take_drop_id)
  qed
  from d have ds: "distinct (map fst ?sel)" by (simp add: distinct_map_filter)
  have "distinct (map (drop ?n) (map fst ?sel))"
    by (subst distinct_map) (rule conjI [OF ds inj])
  then have dk: "distinct (map fst (map (\<lambda>kv. (drop ?n (fst kv), snd kv)) ?sel))"
    by (simp add: comp_def)
  have "fold (\<lambda>kv acc. AList.update (last (split_on CHR ''.'' (fst kv))) (snd kv) acc) ?sel []
      = dict_update [] (map (\<lambda>kv. (last (split_on CHR ''.'' (fst kv)), snd kv)) ?sel)"
    by (rule fold_update_map)
  also have "\<dots> = map (\<lambda>kv. (drop ?n (fst kv), snd kv)) ?sel"
    unfolding eq by (rule dict_update_Nil [OF dk])
  finally show ?thesis using none by (simp add: getitem_def)
qed

lemma loaded_sections:
  assumes "load E fname data ovl = (out, Inr cfg)"
  shows "distinct (map fst (psections cfg))"
    and "\<forall>kv \<in> set (psections cfg). count_list (fst kv) CHR ''.'' < 2"
proof -
  from load_InrD [OF assms] have i: "init_sections E fname data ovl = Inr cfg" .
  from init_sectionsD [OF i] obtain p where
    cs: "check_sections (parser_sections p) = Inr ()" and
    keys: "map fst (psections cfg) = parser_sections p" and
    d: "distinct (map fst (psections cfg))"
    by blast
  show "distinct (map fst (psections cfg))" by (rule d)
  show "\<forall>kv \<in> set (psections cfg). count_list (fst kv) CHR ''.'' < 2"
  proof
    fix kv assume "kv \<in> set (psections cfg)"
    then have "fst kv \<in> set (map fst (psections cfg))" by simp
    with keys check_sectionsD(4) [OF cs] show "count_list (fst kv) CHR ''.'' < 2" by simp
  qed
qed

text \<open>
  C9. On a loaded configuration, a key that is a stored section gives that section; any
  other key gives the dict from the suffix after \<open>key.\<close> to the section, for every
  stored section whose name starts with \<open>key.\<close>; and when no stored section has that
  prefix the result is the empty dict. The lookup never raises.
\<close>

theorem parent_lookup:
  assumes "load E fname data ovl = (out, Inr cfg)"
  shows "(\<forall>sec. map_of (psections cfg) key = Some sec \<longrightarrow>
            getitem (psections cfg) key = Section sec) \<and>
         (map_of (psections cfg) key = None \<longrightarrow>
            getitem (psections cfg) key =
              Children (map (\<lambda>kv. (drop (Suc (length key)) (fst kv), snd kv))
                         (filter (\<lambda>kv. startswith (fst kv) (key @ ''.'')) (psections cfg)))) \<and>
         (map_of (psections cfg) key = None \<and>
          (\<forall>kv \<in> set (psections cfg). \<not> startswith (fst kv) (key @ ''.'')) \<longrightarrow>
            getitem (psections cfg) key = Children [])"
proof -
  note ls = loaded_sections [OF assms]
  have "getitem (psections cfg) key = Section sec" if "map_of (psections cfg) key = Some sec" for sec
    using that by (simp add: getitem_def)
  moreover have c: "getitem (psections cfg) key =
      Children (map (\<lambda>kv. (drop (Suc (length key)) (fst kv), snd kv))
                 (filter (\<lambda>kv. startswith (fst kv) (key @ ''.'')) (psections cfg)))"
    if "map_of (psections cfg) key = None"
    using getitem_children [OF ls that] .
  moreover have "getitem (psections cfg) key = Children []"
    if "map_of (psections cfg) key = None"
       "\<forall>kv \<in> set (psections cfg). \<not> startswith (fst kv) (key @ ''.'')"
  proof -
    from that(2) have "filter (\<lambda>kv. startswith (fst kv) (key @ ''.'')) (psections cfg) = []"
      by (simp add: filter_empty_conv)
    with c [OF that(1)] show ?thesis by simp
  qed
  ultimately show ?thesis by blast
qed

lemma four_keys:
  "map fst ps = [a, b, c, d] \<Longrightarrow> \<exists>va vb vc vd. ps = [(a, va), (b, vb), (c, vc), (d, vd)]"
  by (auto simp: map_eq_Cons_conv)

lemmas section_eval = section_opts_def items_def dict_update_def interp_item_def interpolate_def
  coerce_item_def parse_value_def is_pathlike_def

lemma example_tasks:
  "section_opts E
     \<lparr>pdefaults = [],
      psects = [(''train'', X), (''model'', []), (''tasks.a'', [(''x'', ''1'')]),
                (''tasks.b'', [(''y'', ''2'')])]\<rparr> [] ''tasks.a''
     = Inr (''tasks.a'', [(''x'', PInt 1)])"
  "section_opts E
     \<lparr>pdefaults = [],
      psects = [(''train'', X), (''model'', []), (''tasks.a'', [(''x'', ''1'')]),
                (''tasks.b'', [(''y'', ''2'')])]\<rparr> [] ''tasks.b''
     = Inr (''tasks.b'', [(''y'', PInt 2)])"
  by (simp_all add: section_eval string_defs literal_defs)

theorem parent_lookup_witness:
  "\<exists>cfg tr. load plain_env ''exp.conf'' example_ini None = ([], Inr cfg) \<and>
     getitem (psections cfg) ''tasks'' =
       Children [(''a'', [(''x'', PInt 1)]), (''b'', [(''y'', PInt 2)])] \<and>
     getitem (psections cfg) ''nothing'' = Children [] \<and>
     getitem (psections cfg) ''train'' = Section tr"
proof -
  from example_loads_plain obtain cfg where
    l: "load plain_env ''exp.conf'' example_ini None = ([], Inr cfg)" by blast
  from load_InrD [OF l] have i: "init_sections plain_env ''exp.conf'' example_ini None = Inr cfg" .
  from init_sectionsD [OF i] obtain p ov where
    rs: "read_string read_defaults example_ini = Inr p" and
    ov: "Inr [] = Inr ov" and
    keys: "map fst (psections cfg) = parser_sections p" and
    look: "\<forall>s \<in> set (parser_sections p).
              \<exists>opts. section_opts plain_env p ov s = Inr (s, opts) \<and>
                     map_of (psections cfg) s = Some opts"
    by auto
  from rs have p: "p = \<lparr>pdefaults = [],
          psects = [(''train'', AList.update ''batch_size'' ''64'' default_texts),
                    (''model'', []),
                    (''tasks.a'', [(''x'', ''1'')]),
                    (''tasks.b'', [(''y'', ''2'')])]\<rparr>"
    by (simp add: example_parser)
  from keys have "map fst (psections cfg) = [''train'', ''model'', ''tasks.a'', ''tasks.b'']"
    by (simp add: p parser_sections_def)
  from four_keys [OF this] obtain tr m ta tb where
    ps: "psections cfg = [(''train'', tr), (''model'', m), (''tasks.a'', ta), (''tasks.b'', tb)]"
    by blast
  from look [rule_format, of "''tasks.a''"] ov have "ta = [(''x'', PInt 1)]"
    by (auto simp: p parser_sections_def example_tasks ps)
  moreover from look [rule_format, of "''tasks.b''"] ov have "tb = [(''y'', PInt 2)]"
    by (auto simp: p parser_sections_def example_tasks ps)
  ultimately have ps': "psections cfg =
      [(''train'', tr), (''model'', m), (''tasks.a'', [(''x'', PInt 1)]),
       (''tasks.b'', [(''y'', PInt 2)])]"
    using ps by simp
  from parent_lookup [OF l, of "''tasks''"]
  have 1: "getitem (psections cfg) ''tasks'' =
      Children [(''a'', [(''x'', PInt 1)]), (''b'', [(''y'', PInt 2)])]"
    by (simp add: ps' startswith_def)
  from parent_lookup [OF l, of "''nothing''"]
  have 2: "getitem (psections cfg) ''nothing'' = Children []"
    by (simp add: ps' startswith_def)
  from parent_lookup [OF l, of "''train''"]
  have 3: "getitem (psections cfg) ''train'' = Section tr"
    by (simp add: ps')
  from l 1 2 3 show ?thesis by blast
qed

end
